theory Spec2Isabelle
  imports Main "HOL-Library.Sublist"
begin

section \<open>Pseudo-terminal allocation and child bootstrap (PtyGenerator.h)\<close>

text \<open>
  A shallow embedding of the class \<open>PtyGenerator\<close>. The operating system is an
  explicit state (descriptor table, environment, working directory, signal
  dispositions and the sequence of calls made so far); what a system call answers
  is read from a record of answers, the \<open>world\<close>, so that every failure the code
  tests for is a branch of the model. C++ exceptions are values of a sum type.
\<close>

subsection \<open>Data\<close>

datatype errno = ENOENT | EIO | EACCES | EBUSY | EMFILE | ENXIO

text \<open>
  The dynamic class of a thrown object and the message handed to the constructor of
  its outermost named base (\<open>std::runtime_error\<close> or \<open>unix_exception\<close>).
\<close>

datatype exn_class = runtime_error | unix_exception | child_exception | child_exception_via_pipe

datatype cpp_exception = Thrown exn_class string

datatype signal = SIGINT | SIGQUIT | SIGCHLD

text \<open>
  One event for each call, with its arguments and what it answered: the descriptor
  or the \<open>errno\<close> of an \<open>open\<close>, whether the call succeeded for the others.
  \<open>ev_fprintf fd text\<close> is \<open>fdopen(fd, "w")\<close> followed by \<open>fprintf\<close> of the
  text to that stream, \<open>ev_cerr text\<close> a write of the text to \<open>std::cerr\<close>,
  \<open>ev_signal_dfl sig\<close> the call \<open>signal(sig, SIG_DFL)\<close>.
\<close>

datatype event =
    ev_open string "errno + int"
  | ev_close int bool
  | ev_ptsname int "string option"
  | ev_grantpt int bool
  | ev_unlockpt int bool
  | ev_chown string nat "nat option" bool
  | ev_chmod string bool
  | ev_chdir string bool
  | ev_setsid bool
  | ev_ioctl_TIOCSCTTY int bool
  | ev_ioctl_I_PUSH int string
  | ev_dup2 int int bool
  | ev_putenv string
  | ev_unsetenv string
  | ev_signal_dfl signal
  | ev_execvp string "string list" bool
  | ev_fprintf int string
  | ev_cerr string
  | ev_exit int

text \<open>
  The state of the process: the open descriptors with the path each is open on, the
  environment, the working directory, the signals whose disposition has been reset to
  the default, and the calls made so far.
\<close>

record os =
  fdtable :: "(int \<times> string) list"
  environ :: "string \<Rightarrow> string option"
  cwd :: string
  default_disposition :: "signal \<Rightarrow> bool"
  trace :: "event list"

text \<open>
  The answers of the environment, and the compile-time switches of the header.
  \<open>open_err path\<close> is the \<open>errno\<close> with which \<open>open\<close> of the path fails,
  \<open>None\<close> when it succeeds; \<open>ptsname_res fd\<close> is the name \<open>ptsname\<close> returns,
  \<open>None\<close> for a null pointer; \<open>getgrnam_tty\<close> is the group id of the group
  \<open>tty\<close>, if there is one; \<open>fork_res\<close> is what \<open>fork()\<close> returns in the
  process at hand; the fields \<open>_ok\<close> say whether a call succeeds; \<open>def_\<close> says
  whether the macro is defined.
  \<open>toString_int\<close>, \<open>toString_str\<close> (toString.h), \<open>unix_what\<close> (the text
  \<open>what()\<close> of a \<open>unix_exception\<close> built from a message, unix_exception.h) and
  \<open>dir_listing\<close> (the entry names a \<open>DirectoryIterator\<close> yields for a
  directory, given the descriptor table, DirectoryIterator.h) stand for headers that
  are not part of the sources.
\<close>

record world =
  open_err :: "string \<Rightarrow> errno option"
  ptsname_res :: "int \<Rightarrow> string option"
  grantpt_ok :: "int \<Rightarrow> bool"
  unlockpt_ok :: "int \<Rightarrow> bool"
  getgrnam_tty :: "nat option"
  getuid :: nat
  chown_ok :: "string \<Rightarrow> bool"
  chmod_ok :: "string \<Rightarrow> bool"
  chdir_ok :: "string \<Rightarrow> bool"
  setsid_ok :: bool
  ioctl_TIOCSCTTY_ok :: "int \<Rightarrow> bool"
  dup2_ok :: "int \<Rightarrow> int \<Rightarrow> bool"
  execvp_ok :: "string \<Rightarrow> bool"
  fork_res :: int
  getppid :: int
  dir_listing :: "string \<Rightarrow> (int \<times> string) list \<Rightarrow> string list"
  toString_int :: "int \<Rightarrow> string"
  toString_str :: "string \<Rightarrow> string"
  unix_what :: "string \<Rightarrow> string"
  def_TIOCSCTTY :: bool
  def_sun :: bool
  def_APPLE :: bool

record PtyGenerator =
  ptyName :: string
  masterFd :: int

definition PtyGenerator_new :: PtyGenerator where
  "PtyGenerator_new = \<lparr>ptyName = [], masterFd = - 1\<rparr>"

subsection \<open>System calls\<close>

definition emit :: "event \<Rightarrow> os \<Rightarrow> os" where
  "emit e s = s\<lparr>trace := trace s @ [e]\<rparr>"

definition open_fds :: "os \<Rightarrow> int list" where
  "open_fds s = map fst (fdtable s)"

text \<open>A successful \<open>open\<close> returns the lowest descriptor number that is not in use.\<close>

fun first_free :: "int list \<Rightarrow> nat \<Rightarrow> nat \<Rightarrow> int" where
  "first_free fds 0 n = int n"
| "first_free fds (Suc k) n = (if int n \<in> set fds then first_free fds k (Suc n) else int n)"

definition lowest_unused :: "int list \<Rightarrow> int" where
  "lowest_unused fds = first_free fds (length fds) 0"

definition sys_open :: "world \<Rightarrow> string \<Rightarrow> os \<Rightarrow> (errno + int) \<times> os" where
  "sys_open w path s =
     (case open_err w path of
        Some e \<Rightarrow> (Inl e, emit (ev_open path (Inl e)) s)
      | None \<Rightarrow>
          (let fd = lowest_unused (open_fds s)
           in (Inr fd, emit (ev_open path (Inr fd)) (s\<lparr>fdtable := fdtable s @ [(fd, path)]\<rparr>))))"

text \<open>\<open>close\<close> of a descriptor that is not open fails; no caller looks at the result.\<close>

definition sys_close :: "int \<Rightarrow> os \<Rightarrow> os" where
  "sys_close fd s =
     (if fd \<in> set (open_fds s)
      then emit (ev_close fd True) (s\<lparr>fdtable := filter (\<lambda>p. fst p \<noteq> fd) (fdtable s)\<rparr>)
      else emit (ev_close fd False) s)"

definition file_of :: "os \<Rightarrow> int \<Rightarrow> string" where
  "file_of s fd = (case map_of (fdtable s) fd of Some p \<Rightarrow> p | None \<Rightarrow> [])"

text \<open>\<open>dup2 old new\<close>: the new descriptor number on success, \<open>-1\<close> on failure.\<close>

definition sys_dup2 :: "world \<Rightarrow> int \<Rightarrow> int \<Rightarrow> os \<Rightarrow> int \<times> os" where
  "sys_dup2 w old new s =
     (if old \<in> set (open_fds s) \<and> dup2_ok w old new
      then (new, emit (ev_dup2 old new True)
                  (s\<lparr>fdtable := filter (\<lambda>p. fst p \<noteq> new) (fdtable s) @ [(new, file_of s old)]\<rparr>))
      else (- 1, emit (ev_dup2 old new False) s))"

subsection \<open>Exceptions\<close>

text \<open>
  \<open>child_exception(message)\<close> is \<open>unix_exception("Error from child: " + message)\<close>.
\<close>

definition child_message :: "string \<Rightarrow> string" where
  "child_message message = ''Error from child: '' @ message"

definition what :: "world \<Rightarrow> cpp_exception \<Rightarrow> string" where
  "what w ex = (case ex of Thrown c m \<Rightarrow> if c = runtime_error then m else unix_what w m)"

text \<open>
  The constructor of \<open>child_exception_via_pipe\<close> opens a stream on the descriptor and
  prints \<open>what()\<close> and a newline to it.
\<close>

definition endl :: string where
  "endl = [CHR 0x0A]"

definition throw_via_pipe :: "world \<Rightarrow> int \<Rightarrow> string \<Rightarrow> os \<Rightarrow> cpp_exception \<times> os" where
  "throw_via_pipe w pipeFd message s =
     (let ex = Thrown child_exception_via_pipe (child_message message)
      in (ex, emit (ev_fprintf pipeFd (what w ex @ endl)) s))"

text \<open>
  \<open>catch (const std::exception&)\<close> matches an object whose class has
  \<open>std::exception\<close> as an unambiguous public base. \<open>std::runtime_error\<close> has
  it; \<open>unix_exception\<close>, whose header is not part of the sources, is taken to
  have it too, being what the handler of \<open>forkAndExec\<close> is written for;
  \<open>child_exception\<close> derives publicly from \<open>unix_exception\<close>.
  \<open>child_exception_via_pipe\<close> is declared
  \<open>class child_exception_via_pipe : child_exception\<close>, with no access specifier, and
  the base of a \<open>class\<close> is then private: the handler does not match it.
\<close>

definition caught_as_std_exception :: "cpp_exception \<Rightarrow> bool" where
  "caught_as_std_exception ex = (case ex of Thrown c m \<Rightarrow> c \<noteq> child_exception_via_pipe)"

subsection \<open>Allocation: \<open>search_for_pty\<close>, \<open>ptym_open\<close>, \<open>openMaster\<close>\<close>

definition out_of_ptys :: cpp_exception where
  "out_of_ptys = Thrown runtime_error ''Out of pseudo-terminal devices''"

definition ptr1_chars :: string where
  "ptr1_chars = ''pqrstuvwxyzPQRST''"

definition ptr2_chars :: string where
  "ptr2_chars = ''0123456789abcdef''"

text \<open>
  The inner loop over \<open>ptr2\<close>. \<open>None\<close>: the loop ran to its end; \<open>Some r\<close>: the
  function was left from inside the loop, by \<open>return\<close> or by \<open>throw\<close>. The string is
  the reference parameter \<open>pts_name\<close>, the state the one after the calls made.
\<close>

fun search_inner ::
  "world \<Rightarrow> char \<Rightarrow> string \<Rightarrow> string \<Rightarrow> os \<Rightarrow> (cpp_exception + int) option \<times> string \<times> os" where
  "search_inner w c1 [] pts_name s = (None, pts_name, s)"
| "search_inner w c1 (c2 # cs) pts_name s =
     (case sys_open w (''/dev/pty'' @ [c1] @ [c2]) s of
        (Inl e, s1) \<Rightarrow>
          if e = ENOENT then (Some (Inl out_of_ptys), ''/dev/pty'' @ [c1] @ [c2], s1)
          else search_inner w c1 cs (''/dev/pty'' @ [c1] @ [c2]) s1
      | (Inr fdm, s1) \<Rightarrow> (Some (Inr fdm), ''/dev/tty'' @ [c1] @ [c2], s1))"

fun search_outer ::
  "world \<Rightarrow> string \<Rightarrow> string \<Rightarrow> os \<Rightarrow> (cpp_exception + int) \<times> string \<times> os" where
  "search_outer w [] pts_name s = (Inl out_of_ptys, pts_name, s)"
| "search_outer w (c1 # cs) pts_name s =
     (case search_inner w c1 ptr2_chars pts_name s of
        (Some r, pts_name1, s1) \<Rightarrow> (r, pts_name1, s1)
      | (None, pts_name1, s1) \<Rightarrow> search_outer w cs pts_name1 s1)"

definition search_for_pty :: "world \<Rightarrow> string \<Rightarrow> os \<Rightarrow> (cpp_exception + int) \<times> string \<times> os" where
  "search_for_pty w pts_name s = search_outer w ptr1_chars pts_name s"

definition ptym_open :: "world \<Rightarrow> string \<Rightarrow> os \<Rightarrow> (cpp_exception + int) \<times> string \<times> os" where
  "ptym_open w pts_name s =
     (case sys_open w ''/dev/ptmx'' s of
        (Inl e, s1) \<Rightarrow> search_for_pty w pts_name s1
      | (Inr ptmx_fd, s1) \<Rightarrow>
          (case ptsname_res w ptmx_fd of
             None \<Rightarrow>
               (Inl (Thrown unix_exception (''ptsname('' @ toString_int w ptmx_fd @ '') failed'')),
                pts_name, emit (ev_ptsname ptmx_fd None) s1)
           | Some name \<Rightarrow>
               if \<not> grantpt_ok w ptmx_fd
               then (Inl (Thrown unix_exception (''grantpt('' @ toString_str w name @ '') failed'')),
                     name, emit (ev_grantpt ptmx_fd False) (emit (ev_ptsname ptmx_fd (Some name)) s1))
               else if \<not> unlockpt_ok w ptmx_fd
               then (Inl (Thrown unix_exception (''unlockpt('' @ toString_str w name @ '') failed'')),
                     name,
                     emit (ev_unlockpt ptmx_fd False)
                       (emit (ev_grantpt ptmx_fd True) (emit (ev_ptsname ptmx_fd (Some name)) s1)))
               else (Inr ptmx_fd, name,
                     emit (ev_unlockpt ptmx_fd True)
                       (emit (ev_grantpt ptmx_fd True) (emit (ev_ptsname ptmx_fd (Some name)) s1)))))"

text \<open>
  \<open>openMaster\<close> stores the result in \<open>masterFd\<close>; when \<open>ptym_open\<close> throws, the
  assignment does not happen, but \<open>ptyName\<close> has been written through the reference.
\<close>

definition openMaster :: "world \<Rightarrow> PtyGenerator \<Rightarrow> os \<Rightarrow> (cpp_exception + int) \<times> PtyGenerator \<times> os" where
  "openMaster w g s =
     (case ptym_open w (ptyName g) s of
        (Inl ex, name, s1) \<Rightarrow> (Inl ex, g\<lparr>ptyName := name\<rparr>, s1)
      | (Inr fd, name, s1) \<Rightarrow> (Inr fd, g\<lparr>ptyName := name, masterFd := fd\<rparr>, s1))"

definition getSlavePtyName :: "PtyGenerator \<Rightarrow> string" where
  "getSlavePtyName g = ptyName g"

subsection \<open>The child: \<open>openSlaveAndCloseMaster\<close>\<close>

text \<open>
  The results of \<open>chown\<close> and \<open>chmod\<close> are recorded in the trace and never looked
  at; \<open>gid_t(-1)\<close>, the group when \<open>getgrnam("tty")\<close> finds none, is \<open>None\<close>.
\<close>

definition openSlaveAndCloseMaster :: "world \<Rightarrow> PtyGenerator \<Rightarrow> os \<Rightarrow> (cpp_exception + int) \<times> os" where
  "openSlaveAndCloseMaster w g s =
     (let cName = ptyName g;
          s1 = emit (ev_chown cName (getuid w) (getgrnam_tty w) (chown_ok w cName)) s;
          s2 = emit (ev_chmod cName (chmod_ok w cName)) s1
      in case sys_open w cName s2 of
           (Inl e, s3) \<Rightarrow>
             (Inl (Thrown unix_exception
                    (''open('' @ toString_str w cName @ '', O_RDWR | O_NOCTTY) failed'')), s3)
         | (Inr fds, s3) \<Rightarrow> (Inr fds, sys_close (masterFd g) s3))"

subsection \<open>The child: \<open>closeUnusedFiles\<close>\<close>

text \<open>
  \<open>strtoul(name, NULL, 10)\<close> of the C library, for a 64-bit \<open>unsigned long\<close>: white
  space is skipped, one sign is read, then the longest run of decimal digits; no
  digit gives 0, a value beyond \<open>ULONG_MAX\<close> gives \<open>ULONG_MAX\<close>, a minus sign
  negates modulo \<open>2^64\<close>. The assignment to \<open>int fd\<close> keeps the low 32 bits, read
  as a signed number.
\<close>

definition isspace :: "char \<Rightarrow> bool" where
  "isspace c = (c \<in> set [CHR 0x20, CHR 0x09, CHR 0x0A, CHR 0x0B, CHR 0x0C, CHR 0x0D])"

definition isdigit :: "char \<Rightarrow> bool" where
  "isdigit c = (c \<in> set ''0123456789'')"

fun digits_value :: "nat \<Rightarrow> string \<Rightarrow> nat" where
  "digits_value acc [] = acc"
| "digits_value acc (c # cs) =
     (if isdigit c then digits_value (10 * acc + (of_char c - 48)) cs else acc)"

definition ULONG_MAX :: nat where
  "ULONG_MAX = 2 ^ 64 - 1"

definition strtoul10 :: "string \<Rightarrow> nat" where
  "strtoul10 str =
     (let t = dropWhile isspace str;
          neg = (case t of [] \<Rightarrow> False | c # r \<Rightarrow> c = CHR ''-'');
          u = (case t of [] \<Rightarrow> [] | c # r \<Rightarrow> if c = CHR ''-'' \<or> c = CHR ''+'' then r else t);
          v = digits_value 0 u
      in if ULONG_MAX < v then ULONG_MAX
         else if neg then (2 ^ 64 - v) mod 2 ^ 64
         else v)"

definition int_of_ulong :: "nat \<Rightarrow> int" where
  "int_of_ulong v =
     (let m = v mod 2 ^ 32 in if 2 ^ 31 \<le> m then int m - 2 ^ 32 else int m)"

definition fdDirectory :: "world \<Rightarrow> string" where
  "fdDirectory w = (if def_APPLE w then ''/dev/fd'' else ''/proc/self/fd'')"

text \<open>Pass 1 over the directory entries, \<open>fds\<close> being the deque built so far.\<close>

fun collect_fds :: "string list \<Rightarrow> int list \<Rightarrow> int list" where
  "collect_fds [] fds = fds"
| "collect_fds (name # names) fds =
     (let fd = int_of_ulong (strtoul10 name)
      in if 2 < fd then collect_fds names (fds @ [fd]) else collect_fds names fds)"

text \<open>Pass 2: every collected number is closed, whatever \<open>close\<close> answers.\<close>

fun close_fds :: "int list \<Rightarrow> os \<Rightarrow> os" where
  "close_fds [] s = s"
| "close_fds (fd # fds) s = close_fds fds (sys_close fd s)"

definition closeUnusedFiles :: "world \<Rightarrow> os \<Rightarrow> os" where
  "closeUnusedFiles w s =
     close_fds (collect_fds (dir_listing w (fdDirectory w) (fdtable s)) []) s"

subsection \<open>The child: \<open>fixEnvironment\<close>\<close>

definition sys_putenv :: "string \<Rightarrow> string \<Rightarrow> os \<Rightarrow> os" where
  "sys_putenv name val s =
     emit (ev_putenv (name @ ''='' @ val)) (s\<lparr>environ := (environ s)(name \<mapsto> val)\<rparr>)"

definition sys_unsetenv :: "string \<Rightarrow> os \<Rightarrow> os" where
  "sys_unsetenv name s = emit (ev_unsetenv name) (s\<lparr>environ := (environ s)(name := None)\<rparr>)"

definition fixEnvironment :: "world \<Rightarrow> os \<Rightarrow> os" where
  "fixEnvironment w s =
     (let s1 = sys_putenv ''TERM'' ''terminator'' s;
          s2 = sys_unsetenv ''WINDOWID'' s1
      in if def_APPLE w
         then (let ppid = getppid w;
                   s3 = sys_unsetenv (''APP_ICON_'' @ toString_int w ppid) s2;
                   s4 = sys_unsetenv (''APP_NAME_'' @ toString_int w ppid) s3;
                   s5 = sys_unsetenv (''JAVA_MAIN_CLASS_'' @ toString_int w ppid) s4;
                   s6 = sys_unsetenv ''TERM_PROGRAM'' s5
               in sys_unsetenv ''TERM_PROGRAM_VERSION'' s6)
         else sys_unsetenv ''COLORTERM'' s2)"

subsection \<open>The child: \<open>runChild\<close> and \<open>forkAndExec\<close>\<close>

text \<open>
  \<open>runChild\<close> has no normal return: it ends in a successful \<open>execvp\<close>, after which
  the process runs another program, or in a \<open>throw\<close>.
\<close>

datatype child_end = image_replaced | threw cpp_exception

definition sys_signal_dfl :: "signal \<Rightarrow> os \<Rightarrow> os" where
  "sys_signal_dfl sig s =
     emit (ev_signal_dfl sig) (s\<lparr>default_disposition := (default_disposition s)(sig := True)\<rparr>)"

text \<open>The last part of \<open>runChild\<close>, from \<open>closeUnusedFiles()\<close> on.\<close>

definition runChild_exec :: "world \<Rightarrow> string \<Rightarrow> string list \<Rightarrow> os \<Rightarrow> child_end \<times> os" where
  "runChild_exec w cmd0 cmd_rest s =
     (let s1 = closeUnusedFiles w s;
          s2 = fixEnvironment w s1;
          s3 = sys_signal_dfl SIGINT s2;
          s4 = sys_signal_dfl SIGQUIT s3;
          s5 = sys_signal_dfl SIGCHLD s4
      in if execvp_ok w cmd0
         then (image_replaced, emit (ev_execvp cmd0 (cmd0 # cmd_rest) True) s5)
         else (threw (Thrown unix_exception
                       (''Can'' @ [CHR 0x27] @ ''t execute '' @ [CHR 0x27] @ toString_str w cmd0 @ [CHR 0x27])),
               emit (ev_execvp cmd0 (cmd0 # cmd_rest) False) s5))"

text \<open>
  The three \<open>dup2\<close> tests, each \<open>childFd != N && dup2(childFd, N) != N\<close>, then the
  \<open>close\<close> of a slave descriptor above 2.
\<close>

definition STDIN_FILENO :: int where "STDIN_FILENO = 0"
definition STDOUT_FILENO :: int where "STDOUT_FILENO = 1"
definition STDERR_FILENO :: int where "STDERR_FILENO = 2"

definition dup_onto :: "world \<Rightarrow> int \<Rightarrow> int \<Rightarrow> os \<Rightarrow> bool \<times> os" where
  "dup_onto w childFd slot s =
     (if childFd \<noteq> slot
      then (case sys_dup2 w childFd slot s of (r, s1) \<Rightarrow> (r \<noteq> slot, s1))
      else (False, s))"

definition runChild_stdio :: "world \<Rightarrow> string \<Rightarrow> string list \<Rightarrow> int \<Rightarrow> os \<Rightarrow> child_end \<times> os" where
  "runChild_stdio w cmd0 cmd_rest childFd s =
     (case dup_onto w childFd STDIN_FILENO s of
        (True, s1) \<Rightarrow>
          (case throw_via_pipe w childFd (''dup2('' @ toString_int w childFd @ '', STDIN_FILENO)'') s1 of
             (ex, s2) \<Rightarrow> (threw ex, s2))
      | (False, s1) \<Rightarrow>
          (case dup_onto w childFd STDOUT_FILENO s1 of
             (True, s2) \<Rightarrow>
               (case throw_via_pipe w childFd (''dup2('' @ toString_int w childFd @ '', STDOUT_FILENO)'') s2 of
                  (ex, s3) \<Rightarrow> (threw ex, s3))
           | (False, s2) \<Rightarrow>
               (case dup_onto w childFd STDERR_FILENO s2 of
                  (True, s3) \<Rightarrow>
                    (case throw_via_pipe w childFd (''dup2('' @ toString_int w childFd @ '', STDERR_FILENO)'') s3 of
                       (ex, s4) \<Rightarrow> (threw ex, s4))
                | (False, s3) \<Rightarrow>
                    runChild_exec w cmd0 cmd_rest
                      (if STDERR_FILENO < childFd then sys_close childFd s3 else s3))))"

text \<open>
  \<open>runChild\<close>, in two parts: the \<open>chdir\<close> (in \<open>runChild\<close>) and everything from
  \<open>setsid()\<close> on (\<open>runChild_session\<close>). The command \<open>cmd\<close> is \<open>cmd0 # cmd_rest\<close>, \<open>cmd[0]\<close> being \<open>cmd0\<close>; a
  null \<open>workingDirectory\<close> is \<open>None\<close>. The double quote of the \<open>chdir\<close> message is
  the character \<open>0x22\<close>.
\<close>

definition runChild_session ::
  "world \<Rightarrow> string \<Rightarrow> string list \<Rightarrow> PtyGenerator \<Rightarrow> os \<Rightarrow> child_end \<times> os" where
  "runChild_session w cmd0 cmd_rest ptyGenerator s =
     (if \<not> setsid_ok w
      then (threw (Thrown child_exception (child_message ''setsid()'')), emit (ev_setsid False) s)
      else
        (case openSlaveAndCloseMaster w ptyGenerator (emit (ev_setsid True) s) of
           (Inl ex, s2) \<Rightarrow> (threw ex, s2)
         | (Inr childFd, s2) \<Rightarrow>
             if def_TIOCSCTTY w \<and> \<not> ioctl_TIOCSCTTY_ok w childFd
             then (case throw_via_pipe w childFd
                          (''ioctl('' @ toString_int w childFd @ '', TIOCSCTTY, 0)'')
                          (emit (ev_ioctl_TIOCSCTTY childFd False) s2) of
                     (ex, s3) \<Rightarrow> (threw ex, s3))
             else
               (let s3 = (if def_TIOCSCTTY w then emit (ev_ioctl_TIOCSCTTY childFd True) s2 else s2);
                    s4 = (if def_sun w
                          then emit (ev_ioctl_I_PUSH childFd ''ttcompat'')
                                 (emit (ev_ioctl_I_PUSH childFd ''ldterm'')
                                   (emit (ev_ioctl_I_PUSH childFd ''ptem'') s3))
                          else s3)
                in runChild_stdio w cmd0 cmd_rest childFd s4)))"

definition runChild ::
  "world \<Rightarrow> string \<Rightarrow> string list \<Rightarrow> string option \<Rightarrow> PtyGenerator \<Rightarrow> os \<Rightarrow> child_end \<times> os" where
  "runChild w cmd0 cmd_rest workingDirectory ptyGenerator s =
     (case workingDirectory of
        None \<Rightarrow> runChild_session w cmd0 cmd_rest ptyGenerator s
      | Some d \<Rightarrow>
          if \<not> chdir_ok w d
          then (threw (Thrown child_exception
                         (child_message (''chdir('' @ [CHR 0x22] @ d @ [CHR 0x22] @ '')''))),
                emit (ev_chdir d False) s)
          else runChild_session w cmd0 cmd_rest ptyGenerator (emit (ev_chdir d True) (s\<lparr>cwd := d\<rparr>)))"

text \<open>
  How a call of \<open>forkAndExec\<close> ends in the process that runs it: it returns a value
  (the parent, or a failed \<open>fork\<close>), the process exits, the process image has been
  replaced, or an exception leaves the function towards its caller.
\<close>

datatype call_end = returned int | exited int | replaced | propagated cpp_exception

definition forkAndExec ::
  "world \<Rightarrow> string \<Rightarrow> string list \<Rightarrow> string option \<Rightarrow> PtyGenerator \<Rightarrow> os \<Rightarrow> call_end \<times> os" where
  "forkAndExec w cmd0 cmd_rest workingDirectory g s =
     (let pid = fork_res w
      in if pid < 0 then (returned (- 1), s)
         else if pid = 0
         then (case runChild w cmd0 cmd_rest workingDirectory g s of
                 (image_replaced, s1) \<Rightarrow> (replaced, s1)
               | (threw ex, s1) \<Rightarrow>
                   if caught_as_std_exception ex
                   then (exited 1, emit (ev_exit 1) (emit (ev_cerr (what w ex @ endl)) s1))
                   else (propagated ex, s1))
         else (returned pid, s))"

section \<open>Notions used in the statements\<close>

text \<open>
  What follows is not part of the program: these definitions name the things the
  statements below speak about. All of them compute.
\<close>

subsection \<open>The scan\<close>

text \<open>
  A candidate is the two-character suffix of a device name; \<open>candidates\<close> lists
  them in the order in which the two nested loops of \<open>search_for_pty\<close> visit
  them.
\<close>

definition master_path :: "string \<Rightarrow> string" where
  "master_path c = ''/dev/pty'' @ c"

definition slave_path :: "string \<Rightarrow> string" where
  "slave_path c = ''/dev/tty'' @ c"

definition candidates :: "string list" where
  "candidates = concat (map (\<lambda>c1. map (\<lambda>c2. [c1, c2]) ptr2_chars) ptr1_chars)"

text \<open>
  The two loops as one loop over a list of candidates; \<open>search_for_pty\<close> is
  \<open>scan\<close> on \<open>candidates\<close> (lemma \<open>search_for_pty_scan\<close>).
\<close>

fun scan :: "world \<Rightarrow> string list \<Rightarrow> string \<Rightarrow> os \<Rightarrow> (cpp_exception + int) \<times> string \<times> os" where
  "scan w [] pts_name s = (Inl out_of_ptys, pts_name, s)"
| "scan w (c # cs) pts_name s =
     (case sys_open w (master_path c) s of
        (Inl e, s1) \<Rightarrow>
          if e = ENOENT then (Inl out_of_ptys, master_path c, s1)
          else scan w cs (master_path c) s1
      | (Inr fdm, s1) \<Rightarrow> (Inr fdm, slave_path c, s1))"

text \<open>
  A candidate is skipped when its open fails with an error other than \<open>ENOENT\<close>,
  the \<open>continue\<close> of the inner loop. \<open>attempts\<close> is the state after opening the
  given candidates one after the other.
\<close>

definition skipped :: "world \<Rightarrow> string \<Rightarrow> bool" where
  "skipped w c = (case open_err w (master_path c) of None \<Rightarrow> False | Some e \<Rightarrow> e \<noteq> ENOENT)"

definition attempts :: "world \<Rightarrow> string list \<Rightarrow> os \<Rightarrow> os" where
  "attempts w cs s = fold (\<lambda>c s1. snd (sys_open w (master_path c) s1)) cs s"

subsection \<open>Reading the trace\<close>

text \<open>
  \<open>new_events s s'\<close> are the calls made between the states \<open>s\<close> and \<open>s'\<close>.
  The other functions pick the calls of one kind out of a list of events: the paths
  given to \<open>open\<close>, the texts printed to a stream opened on a descriptor (the
  constructor of \<open>child_exception_via_pipe\<close>), the texts printed to \<open>std::cerr\<close>,
  the descriptors given to \<open>close\<close>, the arguments of \<open>exit\<close>.
\<close>

fun opened_paths :: "event list \<Rightarrow> string list" where
  "opened_paths [] = []"
| "opened_paths (ev_open p r # es) = p # opened_paths es"
| "opened_paths (e # es) = opened_paths es"

definition new_events :: "os \<Rightarrow> os \<Rightarrow> event list" where
  "new_events s s' = drop (length (trace s)) (trace s')"

text \<open>The events of the failing opens among the given candidates, in order.\<close>

definition failed_open_events :: "world \<Rightarrow> string list \<Rightarrow> event list" where
  "failed_open_events w cs =
     concat (map (\<lambda>c. case open_err w (master_path c) of
                          Some e \<Rightarrow> [ev_open (master_path c) (Inl e)]
                        | None \<Rightarrow> []) cs)"

text \<open>The scan was used when some candidate master device was opened.\<close>

definition scan_used :: "os \<Rightarrow> os \<Rightarrow> bool" where
  "scan_used s s' = list_ex (\<lambda>c. master_path c \<in> set (opened_paths (new_events s s'))) candidates"

fun side_channel_writes :: "event list \<Rightarrow> (int \<times> string) list" where
  "side_channel_writes [] = []"
| "side_channel_writes (ev_fprintf fd m # es) = (fd, m) # side_channel_writes es"
| "side_channel_writes (e # es) = side_channel_writes es"

fun stderr_writes :: "event list \<Rightarrow> string list" where
  "stderr_writes [] = []"
| "stderr_writes (ev_cerr m # es) = m # stderr_writes es"
| "stderr_writes (e # es) = stderr_writes es"

fun close_calls :: "event list \<Rightarrow> int list" where
  "close_calls [] = []"
| "close_calls (ev_close fd ok # es) = fd # close_calls es"
| "close_calls (e # es) = close_calls es"

fun exit_calls :: "event list \<Rightarrow> int list" where
  "exit_calls [] = []"
| "exit_calls (ev_exit n # es) = n # exit_calls es"
| "exit_calls (e # es) = exit_calls es"

subsection \<open>The child\<close>

text \<open>
  The exception \<open>openSlaveAndCloseMaster\<close> throws, the event of a \<open>chdir\<close> that
  succeeded, and whether the \<open>chdir\<close> of \<open>runChild\<close>, if any, succeeds.
\<close>

definition slave_open_failed :: "world \<Rightarrow> PtyGenerator \<Rightarrow> cpp_exception" where
  "slave_open_failed w g =
     Thrown unix_exception (''open('' @ toString_str w (ptyName g) @ '', O_RDWR | O_NOCTTY) failed'')"

definition chdir_events :: "string option \<Rightarrow> event list" where
  "chdir_events workingDirectory = (case workingDirectory of None \<Rightarrow> [] | Some d \<Rightarrow> [ev_chdir d True])"

definition chdir_succeeds :: "world \<Rightarrow> string option \<Rightarrow> bool" where
  "chdir_succeeds w workingDirectory = (case workingDirectory of None \<Rightarrow> True | Some d \<Rightarrow> chdir_ok w d)"

text \<open>The number \<open>closeUnusedFiles\<close> reads from a directory entry: \<open>int fd = strtoul(name, NULL, 10)\<close>.\<close>

definition parse_fd :: "string \<Rightarrow> int" where
  "parse_fd name = int_of_ulong (strtoul10 name)"

text \<open>
  The exception thrown after \<open>execvp\<close> returned, the calls of \<open>fixEnvironment\<close>
  and the \<open>ioctl\<close> calls of \<open>runChild\<close> when they succeed.
\<close>

definition exec_failed :: "world \<Rightarrow> string \<Rightarrow> cpp_exception" where
  "exec_failed w cmd0 =
     Thrown unix_exception
       (''Can'' @ [CHR 0x27] @ ''t execute '' @ [CHR 0x27] @ toString_str w cmd0 @ [CHR 0x27])"

definition env_events :: "world \<Rightarrow> event list" where
  "env_events w =
     [ev_putenv ''TERM=terminator'', ev_unsetenv ''WINDOWID''] @
     (if def_APPLE w
      then [ev_unsetenv (''APP_ICON_'' @ toString_int w (getppid w)),
            ev_unsetenv (''APP_NAME_'' @ toString_int w (getppid w)),
            ev_unsetenv (''JAVA_MAIN_CLASS_'' @ toString_int w (getppid w)),
            ev_unsetenv ''TERM_PROGRAM'', ev_unsetenv ''TERM_PROGRAM_VERSION'']
      else [ev_unsetenv ''COLORTERM''])"

definition ioctl_events :: "world \<Rightarrow> int \<Rightarrow> event list" where
  "ioctl_events w fd =
     (if def_TIOCSCTTY w then [ev_ioctl_TIOCSCTTY fd True] else []) @
     (if def_sun w
      then [ev_ioctl_I_PUSH fd ''ptem'', ev_ioctl_I_PUSH fd ''ldterm'', ev_ioctl_I_PUSH fd ''ttcompat'']
      else [])"

text \<open>
  The child inherits open descriptors 0, 1 and 2; every call of \<open>runChild\<close> whose
  result is checked, up to the last \<open>dup2\<close>, succeeds (\<open>fd\<close> is the descriptor
  the slave is opened on); and the calls the child then makes, \<open>cleanup\<close> being
  those of \<open>closeUnusedFiles\<close>.
\<close>

definition stdio_open :: "os \<Rightarrow> bool" where
  "stdio_open s = (0 \<in> set (open_fds s) \<and> 1 \<in> set (open_fds s) \<and> 2 \<in> set (open_fds s))"

definition bootstrap_calls_succeed :: "world \<Rightarrow> string option \<Rightarrow> PtyGenerator \<Rightarrow> int \<Rightarrow> bool" where
  "bootstrap_calls_succeed w workingDirectory g fd =
     (chdir_succeeds w workingDirectory \<and> setsid_ok w \<and> open_err w (ptyName g) = None
      \<and> (if def_TIOCSCTTY w then ioctl_TIOCSCTTY_ok w fd else True)
      \<and> dup2_ok w fd 0 \<and> dup2_ok w fd 1 \<and> dup2_ok w fd 2)"

definition bootstrap_events ::
  "world \<Rightarrow> string \<Rightarrow> string list \<Rightarrow> string option \<Rightarrow> PtyGenerator \<Rightarrow> int \<Rightarrow> event list \<Rightarrow> event list" where
  "bootstrap_events w cmd0 cmd_rest workingDirectory g fd cleanup =
     chdir_events workingDirectory @
     [ev_setsid True,
      ev_chown (ptyName g) (getuid w) (getgrnam_tty w) (chown_ok w (ptyName g)),
      ev_chmod (ptyName g) (chmod_ok w (ptyName g)),
      ev_open (ptyName g) (Inr fd),
      ev_close (masterFd g) True] @
     ioctl_events w fd @
     [ev_dup2 fd 0 True, ev_dup2 fd 1 True, ev_dup2 fd 2 True, ev_close fd True] @
     cleanup @
     env_events w @
     [ev_signal_dfl SIGINT, ev_signal_dfl SIGQUIT, ev_signal_dfl SIGCHLD,
      ev_execvp cmd0 (cmd0 # cmd_rest) (execvp_ok w cmd0)]"

section \<open>A concrete machine\<close>

text \<open>
  States and worlds on which the statements are tried. \<open>decimal\<close> prints an
  integer in base ten; it is what \<open>toString\<close> answers for an \<open>int\<close> in these
  worlds.
\<close>

fun decimal_nat :: "nat \<Rightarrow> string" where
  "decimal_nat n =
     (if n < 10 then [''0123456789'' ! n] else decimal_nat (n div 10) @ [''0123456789'' ! (n mod 10)])"

declare decimal_nat.simps [simp del]

definition decimal :: "int \<Rightarrow> string" where
  "decimal i = (if i < 0 then CHR ''-'' # decimal_nat (nat (- i)) else decimal_nat (nat i))"

text \<open>
  A process with its three standard descriptors open, and an environment as a
  terminal emulator started from another terminal would inherit it.
\<close>

definition os0 :: os where
  "os0 = \<lparr>fdtable = [(0, ''/dev/null''), (1, ''/tmp/out.log''), (2, ''/tmp/err.log'')],
          environ = [''TERM'' \<mapsto> ''xterm'', ''WINDOWID'' \<mapsto> ''77'', ''COLORTERM'' \<mapsto> ''gnome-terminal'',
                     ''TERM_PROGRAM'' \<mapsto> ''Apple_Terminal'', ''HOME'' \<mapsto> ''/root''],
          cwd = ''/'',
          default_disposition = (\<lambda>sig. False),
          trace = []\<rparr>"

text \<open>
  The world in which every call succeeds, on a platform with \<open>TIOCSCTTY\<close> that is
  neither Solaris nor Mac OS; the process is the child of \<open>fork\<close>. The descriptor
  directory lists \<open>.\<close>, \<open>..\<close>, the open descriptors and the descriptor of the
  directory itself. \<open>what()\<close> ends with the same error text whatever the call.
\<close>

definition world0 :: world where
  "world0 = \<lparr>open_err = (\<lambda>p. None),
             ptsname_res = (\<lambda>fd. Some ''/dev/pts/7''),
             grantpt_ok = (\<lambda>fd. True),
             unlockpt_ok = (\<lambda>fd. True),
             getgrnam_tty = Some 5,
             getuid = 1000,
             chown_ok = (\<lambda>p. True),
             chmod_ok = (\<lambda>p. True),
             chdir_ok = (\<lambda>p. True),
             setsid_ok = True,
             ioctl_TIOCSCTTY_ok = (\<lambda>fd. True),
             dup2_ok = (\<lambda>old new. True),
             execvp_ok = (\<lambda>p. True),
             fork_res = 0,
             getppid = 4242,
             dir_listing = (\<lambda>d t. [''.'', ''..''] @ map (\<lambda>p. decimal (fst p)) t
                                   @ [decimal (lowest_unused (map fst t))]),
             toString_int = decimal,
             toString_str = (\<lambda>x. x),
             unix_what = (\<lambda>m. m @ '': (No such file or directory)''),
             def_TIOCSCTTY = True,
             def_sun = False,
             def_APPLE = False\<rparr>"

text \<open>Worlds without \<open>/dev/ptmx\<close>, for the scan.\<close>

definition world_scan_stop :: world where
  "world_scan_stop =
     world0\<lparr>open_err := (\<lambda>p. if p = ''/dev/ptyp0'' then Some EIO
                              else if p = ''/dev/ptyp1'' then Some ENOENT
                              else if p = ''/dev/ptmx'' then Some ENOENT else None)\<rparr>"

definition world_scan_found :: world where
  "world_scan_found =
     world0\<lparr>open_err := (\<lambda>p. if p = ''/dev/ptyp0'' then Some EBUSY
                              else if p = ''/dev/ptmx'' then Some ENOENT else None)\<rparr>"

definition world_scan_busy :: world where
  "world_scan_busy = world0\<lparr>open_err := (\<lambda>p. Some EIO)\<rparr>"

text \<open>
  \<open>/dev/ptmx\<close> exists and may not be opened; the slave-name lookup, the grant or the
  unlock fails.
\<close>

definition world_ptmx_denied :: world where
  "world_ptmx_denied = world0\<lparr>open_err := (\<lambda>p. if p = ''/dev/ptmx'' then Some EACCES else None)\<rparr>"

definition world_no_name :: world where
  "world_no_name = world0\<lparr>ptsname_res := (\<lambda>fd. None)\<rparr>"

definition world_no_grant :: world where
  "world_no_grant = world0\<lparr>grantpt_ok := (\<lambda>fd. False)\<rparr>"

definition world_no_unlock :: world where
  "world_no_unlock = world0\<lparr>unlockpt_ok := (\<lambda>fd. False)\<rparr>"

text \<open>
  The child after \<open>fork\<close>: the generator holds the master on descriptor 3, and two
  more descriptors of the parent are open. Then the worlds in which one call of the
  child fails, and a Mac OS world.
\<close>

definition g0 :: PtyGenerator where
  "g0 = \<lparr>ptyName = ''/dev/pts/7'', masterFd = 3\<rparr>"

definition os1 :: os where
  "os1 = os0\<lparr>fdtable := fdtable os0 @ [(3, ''/dev/ptmx''), (4, ''/var/log/app.log''), (7, ''socket:[1234]'')]\<rparr>"

definition world_no_slave :: world where
  "world_no_slave = world0\<lparr>open_err := (\<lambda>p. if p = ''/dev/pts/7'' then Some ENOENT else None)\<rparr>"

definition world_ioctl_fails :: world where
  "world_ioctl_fails = world0\<lparr>ioctl_TIOCSCTTY_ok := (\<lambda>fd. False)\<rparr>"

definition world_dup2_fails :: world where
  "world_dup2_fails = world0\<lparr>dup2_ok := (\<lambda>old new. new \<noteq> 1)\<rparr>"

definition world_no_exec :: world where
  "world_no_exec = world0\<lparr>execvp_ok := (\<lambda>p. False)\<rparr>"

definition world_apple :: world where
  "world_apple = world0\<lparr>def_APPLE := True\<rparr>"

definition world_no_setsid :: world where
  "world_no_setsid = world0\<lparr>setsid_ok := False\<rparr>"

section \<open>The legacy device scan\<close>

lemma trace_emit: "trace (emit e s) = trace s @ [e]"
  by (simp add: emit_def)

lemma opened_paths_append: "opened_paths (xs @ ys) = opened_paths xs @ opened_paths ys"
  by (induction xs rule: opened_paths.induct) simp_all

lemma search_inner_scan:
  "scan w (map (\<lambda>c2. [c1, c2]) c2s @ rest) pts s =
     (case search_inner w c1 c2s pts s of
        (Some r, p, s1) \<Rightarrow> (r, p, s1)
      | (None, p, s1) \<Rightarrow> scan w rest p s1)"
  by (induction c2s arbitrary: pts s)
     (auto simp: master_path_def slave_path_def split: prod.splits sum.splits)

lemma search_outer_scan:
  "search_outer w c1s pts s = scan w (concat (map (\<lambda>c1. map (\<lambda>c2. [c1, c2]) ptr2_chars) c1s)) pts s"
  by (induction c1s arbitrary: pts s)
     (auto simp: search_inner_scan split: prod.splits option.splits)

lemma search_for_pty_scan: "search_for_pty w pts s = scan w candidates pts s"
  by (simp add: search_for_pty_def candidates_def search_outer_scan)

lemma length_candidates: "length candidates = 256"
  by (simp add: candidates_def ptr1_chars_def ptr2_chars_def)

lemma distinct_candidates: "distinct candidates"
  by (simp add: candidates_def ptr1_chars_def ptr2_chars_def)

lemma sys_open_fail: "open_err w p = Some e \<Longrightarrow> sys_open w p s = (Inl e, emit (ev_open p (Inl e)) s)"
  by (simp add: sys_open_def)

lemma scan_skipped:
  "list_all (skipped w) pre \<Longrightarrow>
     scan w (pre @ rest) pts s =
       scan w rest (if pre = [] then pts else master_path (last pre)) (attempts w pre s)"
  by (induction pre arbitrary: pts s)
     (auto simp: skipped_def attempts_def sys_open_fail split: option.splits)

lemma attempts_skipped_fdtable:
  "list_all (skipped w) pre \<Longrightarrow> fdtable (attempts w pre s) = fdtable s"
  by (induction pre arbitrary: s)
     (auto simp: skipped_def attempts_def sys_open_fail emit_def split: option.splits)

lemma attempts_opened_paths:
  "opened_paths (trace (attempts w cs s)) = opened_paths (trace s) @ map master_path cs"
  by (induction cs arbitrary: s)
     (auto simp: attempts_def sys_open_def emit_def Let_def opened_paths_append split: option.splits)

lemma scan_trace_extends: "\<exists>es. trace (snd (snd (scan w cs pts s))) = trace s @ es"
proof (induction cs arbitrary: pts s)
  case Nil
  show ?case by simp
next
  case (Cons c cs)
  show ?case
  proof (cases "open_err w (master_path c)")
    case None
    then show ?thesis by (simp add: sys_open_def emit_def Let_def)
  next
    case (Some e)
    show ?thesis
    proof (cases "e = ENOENT")
      case True
      with Some show ?thesis by (simp add: sys_open_fail emit_def)
    next
      case False
      from Cons.IH [of "master_path c" "emit (ev_open (master_path c) (Inl e)) s"]
      obtain es where "trace (snd (snd (scan w cs (master_path c) (emit (ev_open (master_path c) (Inl e)) s))))
          = trace (emit (ev_open (master_path c) (Inl e)) s) @ es" by blast
      with Some False show ?thesis by (simp add: sys_open_fail emit_def)
    qed
  qed
qed

lemma scan_opens_first:
  "prefix (opened_paths (trace s) @ [master_path c]) (opened_paths (trace (snd (snd (scan w (c # cs) pts s)))))"
proof -
  obtain r s1 where o: "sys_open w (master_path c) s = (r, s1)" by (cases "sys_open w (master_path c) s")
  have t1: "trace s1 = trace s @ [ev_open (master_path c) r]"
    using o by (auto simp: sys_open_def emit_def Let_def split: option.splits)
  have "\<exists>es. trace (snd (snd (scan w (c # cs) pts s))) = trace s1 @ es"
  proof (cases r)
    case (Inl e)
    show ?thesis
    proof (cases "e = ENOENT")
      case True with o Inl show ?thesis by simp
    next
      case False
      with o Inl scan_trace_extends [of w cs "master_path c" s1] show ?thesis by simp
    qed
  next
    case (Inr fd)
    with o show ?thesis by simp
  qed
  then obtain es where "trace (snd (snd (scan w (c # cs) pts s))) = trace s @ [ev_open (master_path c) r] @ es"
    using t1 by auto
  then show ?thesis by (simp add: opened_paths_append)
qed


lemma attempts_skipped:
  "list_all (skipped w) pre \<Longrightarrow> attempts w pre s = s\<lparr>trace := trace s @ failed_open_events w pre\<rparr>"
proof (induction pre arbitrary: s)
  case Nil
  show ?case by (simp add: attempts_def failed_open_events_def)
next
  case (Cons c pre)
  from Cons.prems have sk: "skipped w c" and rest: "list_all (skipped w) pre"
    by simp_all
  from sk obtain e where e: "open_err w (master_path c) = Some e"
    by (auto simp: skipped_def split: option.splits)
  have "attempts w (c # pre) s = attempts w pre (emit (ev_open (master_path c) (Inl e)) s)"
    by (simp add: attempts_def sys_open_fail [OF e])
  also have "\<dots> = (emit (ev_open (master_path c) (Inl e)) s)\<lparr>trace := trace (emit (ev_open (master_path c) (Inl e)) s) @ failed_open_events w pre\<rparr>"
    by (rule Cons.IH [OF rest])
  also have "\<dots> = s\<lparr>trace := trace s @ failed_open_events w (c # pre)\<rparr>"
    by (simp add: emit_def failed_open_events_def e)
  finally show ?case .
qed

lemma failed_open_events_no_success: "ev_open q (Inr fd) \<notin> set (failed_open_events w cs)"
  by (induction cs) (auto simp: failed_open_events_def split: option.splits)

lemma opened_paths_failed:
  "list_all (skipped w) cs \<Longrightarrow> opened_paths (failed_open_events w cs) = map master_path cs"
  by (induction cs) (auto simp: failed_open_events_def skipped_def split: option.splits)

lemma scan_all_skipped:
  assumes "list_all (skipped w) cs"
  shows "scan w cs pts s =
           (Inl out_of_ptys, (if cs = [] then pts else master_path (last cs)),
            s\<lparr>trace := trace s @ failed_open_events w cs\<rparr>)"
  using scan_skipped [OF assms, of "[]" pts s] attempts_skipped [OF assms, of s] by simp

lemma scan_stop:
  assumes "list_all (skipped w) pre" and "open_err w (master_path c) = Some ENOENT"
  shows "scan w (pre @ c # post) pts s =
           (Inl out_of_ptys, master_path c,
            s\<lparr>trace := trace s @ failed_open_events w pre @ [ev_open (master_path c) (Inl ENOENT)]\<rparr>)"
  using scan_skipped [OF assms(1), of "c # post" pts s] attempts_skipped [OF assms(1), of s] assms(2)
  by (simp add: sys_open_fail emit_def)

lemma scan_success:
  assumes "list_all (skipped w) pre" and "open_err w (master_path c) = None"
  shows "scan w (pre @ c # post) pts s =
           (Inr (lowest_unused (open_fds s)), slave_path c,
            s\<lparr>fdtable := fdtable s @ [(lowest_unused (open_fds s), master_path c)],
              trace := trace s @ failed_open_events w pre
                         @ [ev_open (master_path c) (Inr (lowest_unused (open_fds s)))]\<rparr>)"
  using scan_skipped [OF assms(1), of "c # post" pts s] attempts_skipped [OF assms(1), of s] assms(2)
  by (simp add: sys_open_def emit_def open_fds_def Let_def)

lemma scan_cases:
  "list_all (skipped w) cs \<or>
   (\<exists>pre c post. cs = pre @ c # post \<and> list_all (skipped w) pre \<and> \<not> skipped w c)"
proof (cases "list_all (skipped w) cs")
  case True
  then show ?thesis by simp
next
  case False
  then have "\<exists>x \<in> set cs. \<not> skipped w x" by (simp add: list_all_iff)
  then obtain pre c post where "cs = pre @ c # post" "\<not> skipped w c" "\<forall>y \<in> set pre. \<not> \<not> skipped w y"
    using split_list_first_prop [of cs "\<lambda>x. \<not> skipped w x"] by blast
  then show ?thesis by (auto simp: list_all_iff)
qed

lemma not_skipped: "\<not> skipped w c \<Longrightarrow> open_err w (master_path c) = Some ENOENT \<or> open_err w (master_path c) = None"
  by (auto simp: skipped_def split: option.splits)

lemma master_path_inj: "master_path a = master_path b \<Longrightarrow> a = b"
  by (simp add: master_path_def)




lemma new_events_update [simp]: "new_events s (s\<lparr>trace := trace s @ es\<rparr>) = es"
  by (simp add: new_events_def)

lemma new_events_update2 [simp]: "new_events s (s\<lparr>fdtable := t, trace := trace s @ es\<rparr>) = es"
  by (simp add: new_events_def)

lemma search_for_pty_cases:
  assumes "search_for_pty w pts_name s = (r, name, s')"
  shows "(list_all (skipped w) candidates \<and> r = Inl out_of_ptys
            \<and> new_events s s' = failed_open_events w candidates)
       \<or> (\<exists>pre c post. candidates = pre @ c # post \<and> list_all (skipped w) pre
            \<and> open_err w (master_path c) = Some ENOENT \<and> r = Inl out_of_ptys
            \<and> new_events s s' = failed_open_events w pre @ [ev_open (master_path c) (Inl ENOENT)])
       \<or> (\<exists>pre c post. candidates = pre @ c # post \<and> list_all (skipped w) pre
            \<and> open_err w (master_path c) = None \<and> r = Inr (lowest_unused (open_fds s))
            \<and> name = slave_path c
            \<and> (lowest_unused (open_fds s), master_path c) \<in> set (fdtable s')
            \<and> new_events s s' = failed_open_events w pre
                  @ [ev_open (master_path c) (Inr (lowest_unused (open_fds s)))])"
proof -
  from scan_cases [of w candidates] show ?thesis
  proof
    assume a: "list_all (skipped w) candidates"
    from scan_all_skipped [OF a, of pts_name s] assms show ?thesis
      by (auto simp: search_for_pty_scan a)
  next
    assume "\<exists>pre c post. candidates = pre @ c # post \<and> list_all (skipped w) pre \<and> \<not> skipped w c"
    then obtain pre c post where d: "candidates = pre @ c # post" and p: "list_all (skipped w) pre"
      and n: "\<not> skipped w c" by blast
    from not_skipped [OF n] show ?thesis
    proof
      assume e: "open_err w (master_path c) = Some ENOENT"
      from scan_stop [OF p e, of post pts_name s] assms d
      have "r = Inl out_of_ptys \<and>
            new_events s s' = failed_open_events w pre @ [ev_open (master_path c) (Inl ENOENT)]"
        by (auto simp: search_for_pty_scan)
      with d p e show ?thesis by blast
    next
      assume e: "open_err w (master_path c) = None"
      from scan_success [OF p e, of post pts_name s] assms d
      have "r = Inr (lowest_unused (open_fds s)) \<and> name = slave_path c
            \<and> (lowest_unused (open_fds s), master_path c) \<in> set (fdtable s')
            \<and> new_events s s' = failed_open_events w pre
                  @ [ev_open (master_path c) (Inr (lowest_unused (open_fds s)))]"
        by (auto simp: search_for_pty_scan)
      with d p e show ?thesis by blast
    qed
  qed
qed

lemma candidates_literal:
  "candidates = concat (map (\<lambda>c1. map (\<lambda>c2. [c1, c2]) ''0123456789abcdef'') ''pqrstuvwxyzPQRST'')"
  by (simp only: candidates_def ptr1_chars_def ptr2_chars_def)

lemma candidates_split2: "candidates = [''p0''] @ ''p1'' # drop 2 candidates"
  by (simp add: candidates_def ptr1_chars_def ptr2_chars_def)

lemma candidates_split1: "candidates = [] @ ''p0'' # ''p1'' # drop 2 candidates"
  by (simp add: candidates_def ptr1_chars_def ptr2_chars_def)

section \<open>Descriptors and \<open>ptym_open\<close>\<close>

lemma first_free_unused:
  "card (set fds \<inter> {int n ..}) \<le> k \<Longrightarrow> first_free fds k n \<notin> set fds"
proof (induction k arbitrary: n)
  case 0
  then have "set fds \<inter> {int n ..} = {}" by simp
  then show ?case by auto
next
  case (Suc k)
  show ?case
  proof (cases "int n \<in> set fds")
    case False
    then show ?thesis by simp
  next
    case True
    have "set fds \<inter> {int n ..} = insert (int n) (set fds \<inter> {int (Suc n) ..})"
      using True by auto
    moreover have "int n \<notin> set fds \<inter> {int (Suc n) ..}" by simp
    ultimately have "card (set fds \<inter> {int n ..}) = Suc (card (set fds \<inter> {int (Suc n) ..}))"
      by simp
    with Suc.prems have "card (set fds \<inter> {int (Suc n) ..}) \<le> k" by simp
    from Suc.IH [OF this] True show ?thesis by simp
  qed
qed

lemma lowest_unused_fresh: "lowest_unused fds \<notin> set fds"
proof -
  have "card (set fds \<inter> {int 0 ..}) \<le> card (set fds)"
    by (rule card_mono) auto
  also have "\<dots> \<le> length fds" by (rule card_length)
  finally show ?thesis unfolding lowest_unused_def by (rule first_free_unused)
qed

lemma lowest_unused_fresh_pair: "(lowest_unused (map fst t), b) \<notin> set t"
proof
  assume "(lowest_unused (map fst t), b) \<in> set t"
  then have "fst (lowest_unused (map fst t), b) \<in> fst ` set t" by (rule imageI)
  then have "lowest_unused (map fst t) \<in> set (map fst t)" by simp
  with lowest_unused_fresh show False by blast
qed

lemma first_free_nonneg: "0 \<le> first_free fds k n"
  by (induction k arbitrary: n) auto

lemma lowest_unused_nonneg: "0 \<le> lowest_unused fds"
  by (simp add: lowest_unused_def first_free_nonneg)

lemma open_fds_emit [simp]: "open_fds (emit e s) = open_fds s"
  by (simp add: open_fds_def emit_def)

lemma fdtable_emit [simp]: "fdtable (emit e s) = fdtable s"
  by (simp add: emit_def)

lemma ptym_open_fallback:
  "open_err w ''/dev/ptmx'' = Some e \<Longrightarrow>
     ptym_open w pts s = search_for_pty w pts (emit (ev_open ''/dev/ptmx'' (Inl e)) s)"
  by (simp add: ptym_open_def sys_open_fail)

lemma openMaster_fallback:
  assumes "open_err w ''/dev/ptmx'' = Some e0"
      and "search_for_pty w (ptyName g) (emit (ev_open ''/dev/ptmx'' (Inl e0)) s) = (r, name, s')"
  shows "openMaster w g s =
           (r, (case r of Inl ex \<Rightarrow> g\<lparr>ptyName := name\<rparr>
                        | Inr fd \<Rightarrow> g\<lparr>ptyName := name, masterFd := fd\<rparr>), s')"
  using assms by (simp add: openMaster_def ptym_open_fallback split: sum.splits)

lemma search_for_pty_fdtable:
  assumes "search_for_pty w pts s = (r, name, s')"
  shows "(\<forall>ex. r = Inl ex \<longrightarrow> fdtable s' = fdtable s)
       \<and> (\<forall>fd. r = Inr fd \<longrightarrow> fd = lowest_unused (open_fds s)
              \<and> (\<exists>c. fdtable s' = fdtable s @ [(fd, master_path c)]))"
proof -
  from scan_cases [of w candidates] show ?thesis
  proof
    assume a: "list_all (skipped w) candidates"
    from scan_all_skipped [OF a, of pts s] assms show ?thesis
      by (auto simp: search_for_pty_scan)
  next
    assume "\<exists>pre c post. candidates = pre @ c # post \<and> list_all (skipped w) pre \<and> \<not> skipped w c"
    then obtain pre c post where d: "candidates = pre @ c # post" and p: "list_all (skipped w) pre"
      and n: "\<not> skipped w c" by blast
    from not_skipped [OF n] show ?thesis
    proof
      assume e: "open_err w (master_path c) = Some ENOENT"
      from scan_stop [OF p e, of post pts s] assms d show ?thesis
        by (auto simp: search_for_pty_scan)
    next
      assume e: "open_err w (master_path c) = None"
      from scan_success [OF p e, of post pts s] assms d show ?thesis
        by (auto simp: search_for_pty_scan)
    qed
  qed
qed

lemma search_for_pty_opens_first:
  "\<exists>zs. opened_paths (new_events s (snd (snd (search_for_pty w pts s)))) = master_path ''p0'' # zs"
proof -
  have c: "candidates = ''p0'' # drop 1 candidates"
    by (simp add: candidates_def ptr1_chars_def ptr2_chars_def)
  obtain es where es: "trace (snd (snd (scan w candidates pts s))) = trace s @ es"
    using scan_trace_extends by blast
  have "prefix (opened_paths (trace s) @ [master_path ''p0''])
          (opened_paths (trace (snd (snd (scan w (''p0'' # drop 1 candidates) pts s)))))"
    by (rule scan_opens_first)
  then have "prefix (opened_paths (trace s) @ [master_path ''p0''])
          (opened_paths (trace (snd (snd (scan w candidates pts s)))))"
    by (simp only: c [symmetric])
  then obtain zs where "opened_paths (trace (snd (snd (scan w candidates pts s))))
      = (opened_paths (trace s) @ [master_path ''p0'']) @ zs"
    unfolding prefix_def by blast
  with es have "opened_paths es = master_path ''p0'' # zs" by (simp add: opened_paths_append)
  with es show ?thesis by (auto simp: search_for_pty_scan new_events_def)
qed

lemma new_events_extend:
  "trace s1 = trace s @ es \<Longrightarrow> trace s' = trace s1 @ fs \<Longrightarrow> new_events s s' = es @ new_events s1 s'"
  by (simp add: new_events_def)

lemma search_for_pty_trace_extends:
  "\<exists>es. trace (snd (snd (search_for_pty w pts s))) = trace s @ es"
  by (simp add: search_for_pty_scan scan_trace_extends)

lemma p0_candidate: "''p0'' \<in> set candidates"
  by (simp add: candidates_def ptr1_chars_def ptr2_chars_def)

lemma ptmx_not_candidate: "master_path c \<noteq> ''/dev/ptmx''"
  by (simp add: master_path_def)

lemma ptym_open_scan_used:
  assumes "ptym_open w pts s = (r, name, s')"
  shows "scan_used s s' \<longleftrightarrow> open_err w ''/dev/ptmx'' \<noteq> None"
proof (cases "open_err w ''/dev/ptmx''")
  case (Some e)
  let ?s1 = "emit (ev_open ''/dev/ptmx'' (Inl e)) s"
  have r: "s' = snd (snd (search_for_pty w pts ?s1))"
    using assms by (simp add: ptym_open_fallback [OF Some])
  obtain fs where fs: "trace s' = trace ?s1 @ fs"
    using search_for_pty_trace_extends [of w pts ?s1] r by auto
  obtain zs where zs: "opened_paths (new_events ?s1 s') = master_path ''p0'' # zs"
    using search_for_pty_opens_first [of ?s1 w pts] r by auto
  have "new_events s s' = [ev_open ''/dev/ptmx'' (Inl e)] @ new_events ?s1 s'"
    by (rule new_events_extend [OF _ fs]) (simp add: emit_def)
  then have "master_path ''p0'' \<in> set (opened_paths (new_events s s'))"
    using zs by simp
  then have "scan_used s s'" using p0_candidate by (auto simp: scan_used_def list_ex_iff)
  with Some show ?thesis by simp
next
  case None
  then have "opened_paths (new_events s s') = [''/dev/ptmx'']"
    using assms
    by (auto simp: ptym_open_def sys_open_def Let_def emit_def new_events_def split: option.splits if_splits)
  then have "\<not> scan_used s s'"
    by (auto simp: scan_used_def list_ex_iff ptmx_not_candidate)
  with None show ?thesis by simp
qed


lemma openMaster_ptym_open:
  assumes "openMaster w g s = (r, g', s')"
  shows "ptym_open w (ptyName g) s = (r, ptyName g', s')
       \<and> (\<forall>fd. r = Inr fd \<longrightarrow> masterFd g' = fd)
       \<and> (\<forall>ex. r = Inl ex \<longrightarrow> masterFd g' = masterFd g)"
  using assms by (auto simp: openMaster_def split: prod.splits sum.splits)

lemma ptym_open_primary:
  assumes "open_err w ''/dev/ptmx'' = None"
  shows "ptym_open w pts s =
     (let fd0 = lowest_unused (open_fds s);
          s1 = emit (ev_open ''/dev/ptmx'' (Inr fd0)) (s\<lparr>fdtable := fdtable s @ [(fd0, ''/dev/ptmx'')]\<rparr>)
      in case ptsname_res w fd0 of
           None \<Rightarrow> (Inl (Thrown unix_exception (''ptsname('' @ toString_int w fd0 @ '') failed'')),
                     pts, emit (ev_ptsname fd0 None) s1)
         | Some name \<Rightarrow>
             if \<not> grantpt_ok w fd0
             then (Inl (Thrown unix_exception (''grantpt('' @ toString_str w name @ '') failed'')),
                   name, emit (ev_grantpt fd0 False) (emit (ev_ptsname fd0 (Some name)) s1))
             else if \<not> unlockpt_ok w fd0
             then (Inl (Thrown unix_exception (''unlockpt('' @ toString_str w name @ '') failed'')),
                   name, emit (ev_unlockpt fd0 False)
                           (emit (ev_grantpt fd0 True) (emit (ev_ptsname fd0 (Some name)) s1)))
             else (Inr fd0, name, emit (ev_unlockpt fd0 True)
                           (emit (ev_grantpt fd0 True) (emit (ev_ptsname fd0 (Some name)) s1))))"
  using assms by (simp add: ptym_open_def sys_open_def Let_def)

lemma lowest_unused_os0: "lowest_unused (open_fds os0) = 3"
  by code_simp

lemma no_name_result:
  "fst (openMaster world_no_name PtyGenerator_new os0) = Inl (Thrown unix_exception ''ptsname(3) failed'')"
  by code_simp

lemma ptmx_denied_result: "fst (openMaster world_ptmx_denied PtyGenerator_new os0) = Inr 3"
  by code_simp

lemma scan_stop_result: "fst (openMaster world_scan_stop PtyGenerator_new os0) = Inl out_of_ptys"
  by code_simp

lemma ptmx_denied_scan_used:
  "scan_used os0 (snd (snd (openMaster world_ptmx_denied PtyGenerator_new os0)))"
proof -
  let ?X = "openMaster world_ptmx_denied PtyGenerator_new os0"
  have x: "?X = (fst ?X, fst (snd ?X), snd (snd ?X))" by simp
  have e: "open_err world_ptmx_denied ''/dev/ptmx'' = Some EACCES"
    by (simp add: world_ptmx_denied_def world0_def)
  from openMaster_ptym_open [OF x]
  have "ptym_open world_ptmx_denied (ptyName PtyGenerator_new) os0
          = (fst ?X, ptyName (fst (snd ?X)), snd (snd ?X))" by simp
  from ptym_open_scan_used [OF this] e show ?thesis by simp
qed

section \<open>C1: \<open>ENOENT\<close> stops the scan, any other error skips the candidate\<close>

text \<open>
  Claim C1. The scan reaches a candidate \<open>c\<close> when every candidate before it was
  skipped (\<open>pre\<close>). If the open of \<open>c\<close> then fails with \<open>ENOENT\<close>,
  \<open>search_for_pty\<close> throws "Out of pseudo-terminal devices" at once: the opens it
  made are those of \<open>pre\<close> and of \<open>c\<close>, none of a later candidate, and
  \<open>openMaster\<close>, having come to the scan, fails with that error. If the open of
  \<open>c\<close> fails with any other error, the scan goes on with the candidates after
  \<open>c\<close>, and the next one, when there is one, is opened.
\<close>

theorem search_for_pty_ENOENT_stops:
  assumes "candidates = pre @ c # post" and "list_all (skipped w) pre"
  shows "(open_err w (master_path c) = Some ENOENT \<longrightarrow>
            search_for_pty w pts_name s =
              (Inl out_of_ptys, master_path c,
               s\<lparr>trace := trace s @ failed_open_events w pre @ [ev_open (master_path c) (Inl ENOENT)]\<rparr>)
            \<and> opened_paths (new_events s (snd (snd (search_for_pty w pts_name s))))
                = map master_path (pre @ [c])
            \<and> (\<forall>e0 g s0. open_err w ''/dev/ptmx'' = Some e0 \<longrightarrow>
                  fst (openMaster w g s0) = Inl out_of_ptys))
       \<and> (skipped w c \<longrightarrow>
            search_for_pty w pts_name s = scan w post (master_path c) (attempts w (pre @ [c]) s)
            \<and> (\<forall>n rest. post = n # rest \<longrightarrow>
                  prefix (map master_path (pre @ [c, n]))
                         (opened_paths (new_events s (snd (snd (search_for_pty w pts_name s)))))))"
proof (intro conjI impI allI)
  assume e: "open_err w (master_path c) = Some ENOENT"
  show r: "search_for_pty w pts_name s =
      (Inl out_of_ptys, master_path c,
       s\<lparr>trace := trace s @ failed_open_events w pre @ [ev_open (master_path c) (Inl ENOENT)]\<rparr>)"
    unfolding search_for_pty_scan assms(1) by (rule scan_stop [OF assms(2) e])
  show "opened_paths (new_events s (snd (snd (search_for_pty w pts_name s)))) = map master_path (pre @ [c])"
    by (simp add: r new_events_def opened_paths_append opened_paths_failed [OF assms(2)])
  fix e0 :: errno and g :: PtyGenerator and s0 :: os
  assume p: "open_err w ''/dev/ptmx'' = Some e0"
  have "search_for_pty w (ptyName g) (emit (ev_open ''/dev/ptmx'' (Inl e0)) s0) =
      (Inl out_of_ptys, master_path c,
       (emit (ev_open ''/dev/ptmx'' (Inl e0)) s0)
         \<lparr>trace := trace (emit (ev_open ''/dev/ptmx'' (Inl e0)) s0)
                     @ failed_open_events w pre @ [ev_open (master_path c) (Inl ENOENT)]\<rparr>)"
    unfolding search_for_pty_scan assms(1) by (rule scan_stop [OF assms(2) e])
  from openMaster_fallback [OF p this] show "fst (openMaster w g s0) = Inl out_of_ptys" by simp
next
  assume sk: "skipped w c"
  then have all: "list_all (skipped w) (pre @ [c])" using assms(2) by simp
  show r: "search_for_pty w pts_name s = scan w post (master_path c) (attempts w (pre @ [c]) s)"
    unfolding search_for_pty_scan assms(1) using scan_skipped [OF all, of post pts_name s] by simp
  fix n rest
  assume p: "post = n # rest"
  let ?s1 = "attempts w (pre @ [c]) s"
  have t1: "trace ?s1 = trace s @ failed_open_events w (pre @ [c])"
    by (simp add: attempts_skipped [OF all])
  from scan_opens_first [of ?s1 n w rest "master_path c"]
  obtain zs where "opened_paths (trace (snd (snd (scan w (n # rest) (master_path c) ?s1))))
      = (opened_paths (trace ?s1) @ [master_path n]) @ zs"
    by (auto simp: prefix_def)
  moreover obtain es where "trace (snd (snd (scan w (n # rest) (master_path c) ?s1))) = trace ?s1 @ es"
    using scan_trace_extends by blast
  ultimately have "opened_paths es = master_path n # zs"
    by (simp add: opened_paths_append)
  then show "prefix (map master_path (pre @ [c, n]))
                (opened_paths (new_events s (snd (snd (search_for_pty w pts_name s)))))"
    using \<open>trace (snd (snd (scan w (n # rest) (master_path c) ?s1))) = trace ?s1 @ es\<close>
    by (simp add: r p t1 new_events_def opened_paths_append opened_paths_failed [OF all] prefix_def)
qed

text \<open>An instance: \<open>/dev/ptyp0\<close> fails with \<open>EIO\<close>, \<open>/dev/ptyp1\<close> with \<open>ENOENT\<close>.\<close>

theorem search_for_pty_ENOENT_stops_witness:
  "search_for_pty world_scan_stop [] os0 =
     (Inl out_of_ptys, ''/dev/ptyp1'',
      os0\<lparr>trace := [ev_open ''/dev/ptyp0'' (Inl EIO), ev_open ''/dev/ptyp1'' (Inl ENOENT)]\<rparr>)
   \<and> fst (openMaster world_scan_stop PtyGenerator_new os0) = Inl out_of_ptys
   \<and> prefix [''/dev/ptyp0'', ''/dev/ptyp1'']
        (opened_paths (new_events os0 (snd (snd (search_for_pty world_scan_stop [] os0)))))"
proof -
  have sk: "list_all (skipped world_scan_stop) [''p0'']"
    by (simp add: skipped_def world_scan_stop_def world0_def master_path_def)
  have e: "open_err world_scan_stop (master_path ''p1'') = Some ENOENT"
    by (simp add: world_scan_stop_def world0_def master_path_def)
  have a: "search_for_pty world_scan_stop [] os0 =
     (Inl out_of_ptys, ''/dev/ptyp1'',
      os0\<lparr>trace := [ev_open ''/dev/ptyp0'' (Inl EIO), ev_open ''/dev/ptyp1'' (Inl ENOENT)]\<rparr>)"
    using search_for_pty_ENOENT_stops [OF candidates_split2 sk, of "[]" os0] e
    by (simp add: failed_open_events_def master_path_def world_scan_stop_def world0_def os0_def)
  have m: "open_err world_scan_stop ''/dev/ptmx'' = Some ENOENT"
    by (simp add: world_scan_stop_def world0_def)
  from search_for_pty_ENOENT_stops [OF candidates_split2 sk, of "[]" os0] e m
  have a': "fst (openMaster world_scan_stop PtyGenerator_new os0) = Inl out_of_ptys"
    by blast
  have sk0: "skipped world_scan_stop ''p0''" using sk by simp
  have b: "prefix [''/dev/ptyp0'', ''/dev/ptyp1'']
        (opened_paths (new_events os0 (snd (snd (search_for_pty world_scan_stop [] os0)))))"
  proof -
    have "list_all (skipped world_scan_stop) []" by simp
    from search_for_pty_ENOENT_stops [OF candidates_split1 this, of "[]" os0] sk0
    have "\<forall>n rest. ''p1'' # drop 2 candidates = n # rest \<longrightarrow>
            prefix (map master_path ([] @ [''p0'', n]))
              (opened_paths (new_events os0 (snd (snd (search_for_pty world_scan_stop [] os0)))))"
      by blast
    then show ?thesis by (simp add: master_path_def)
  qed
  from a a' b show ?thesis by simp
qed

section \<open>C6: the candidate space and the first successful open\<close>

text \<open>
  Claim C6. The scan draws its candidates from the 16 \<times> 16 = 256 two-character
  names, first character from \<open>pqrstuvwxyzPQRST\<close>, second from
  \<open>0123456789abcdef\<close>, in that fixed order: the paths it opens are those of an
  initial segment of \<open>candidates\<close>. When the open of a candidate master
  \<open>/dev/ptyXY\<close> succeeds during the scan, the scan returns that descriptor and the
  slave path \<open>/dev/ttyXY\<close>, with the same two trailing characters; this happens for
  the first candidate whose open succeeds, every candidate before it having been
  skipped, and \<open>openMaster\<close>, having come to the scan, then returns that descriptor
  and stores it and the slave path in the generator. When every candidate has been skipped, and more generally whenever no open
  of the scan succeeded, the scan fails with "Out of pseudo-terminal devices".
\<close>

theorem search_for_pty_first_success:
  assumes "search_for_pty w pts_name s = (r, name, s')"
  shows "length candidates = 256 \<and> distinct candidates
       \<and> candidates = concat (map (\<lambda>c1. map (\<lambda>c2. [c1, c2]) ''0123456789abcdef'') ''pqrstuvwxyzPQRST'')
       \<and> (\<exists>k. opened_paths (new_events s s') = map master_path (take k candidates))
       \<and> (\<forall>c fd. c \<in> set candidates \<longrightarrow> ev_open (master_path c) (Inr fd) \<in> set (new_events s s') \<longrightarrow>
             r = Inr fd \<and> name = slave_path c \<and> (fd, master_path c) \<in> set (fdtable s'))
       \<and> (\<forall>pre c post. candidates = pre @ c # post \<longrightarrow> list_all (skipped w) pre \<longrightarrow>
             open_err w (master_path c) = None \<longrightarrow>
             r = Inr (lowest_unused (open_fds s)) \<and> name = slave_path c
             \<and> ev_open (master_path c) (Inr (lowest_unused (open_fds s))) \<in> set (new_events s s'))
       \<and> (list_all (skipped w) candidates \<longrightarrow>
             r = Inl out_of_ptys \<and> opened_paths (new_events s s') = map master_path candidates)
       \<and> ((\<forall>q fd. ev_open q (Inr fd) \<notin> set (new_events s s')) \<longrightarrow> r = Inl out_of_ptys)
       \<and> (\<forall>pre c post e0 g s0.
             candidates = pre @ c # post \<longrightarrow> list_all (skipped w) pre \<longrightarrow>
             open_err w (master_path c) = None \<longrightarrow> open_err w ''/dev/ptmx'' = Some e0 \<longrightarrow>
             fst (openMaster w g s0) = Inr (lowest_unused (open_fds s0))
             \<and> masterFd (fst (snd (openMaster w g s0))) = lowest_unused (open_fds s0)
             \<and> getSlavePtyName (fst (snd (openMaster w g s0))) = slave_path c)
       \<and> (\<forall>e0 g s0. list_all (skipped w) candidates \<longrightarrow> open_err w ''/dev/ptmx'' = Some e0 \<longrightarrow>
             fst (openMaster w g s0) = Inl out_of_ptys)"
proof (intro conjI allI impI)
  show "length candidates = 256" by (rule length_candidates)
  show "distinct candidates" by (rule distinct_candidates)
  show "candidates = concat (map (\<lambda>c1. map (\<lambda>c2. [c1, c2]) ''0123456789abcdef'') ''pqrstuvwxyzPQRST'')"
    by (rule candidates_literal)
next
  from search_for_pty_cases [OF assms]
  show "\<exists>k. opened_paths (new_events s s') = map master_path (take k candidates)"
  proof (elim disjE exE conjE)
    assume a: "list_all (skipped w) candidates" "new_events s s' = failed_open_events w candidates"
    then have "opened_paths (new_events s s') = map master_path (take (length candidates) candidates)"
      by (simp add: opened_paths_failed)
    then show ?thesis ..
  next
    fix pre c post
    assume a: "candidates = pre @ c # post" "list_all (skipped w) pre"
      "new_events s s' = failed_open_events w pre @ [ev_open (master_path c) (Inl ENOENT)]"
    moreover have "take (Suc (length pre)) candidates = pre @ [c]"
      unfolding a(1) by simp
    ultimately have "opened_paths (new_events s s') = map master_path (take (Suc (length pre)) candidates)"
      by (simp add: opened_paths_failed opened_paths_append)
    then show ?thesis ..
  next
    fix pre c post
    assume a: "candidates = pre @ c # post" "list_all (skipped w) pre"
      "new_events s s' = failed_open_events w pre @ [ev_open (master_path c) (Inr (lowest_unused (open_fds s)))]"
    moreover have "take (Suc (length pre)) candidates = pre @ [c]"
      unfolding a(1) by simp
    ultimately have "opened_paths (new_events s s') = map master_path (take (Suc (length pre)) candidates)"
      by (simp add: opened_paths_failed opened_paths_append)
    then show ?thesis ..
  qed
next
  fix c fd
  assume c: "c \<in> set candidates" and ev: "ev_open (master_path c) (Inr fd) \<in> set (new_events s s')"
  from search_for_pty_cases [OF assms]
  have "r = Inr fd \<and> name = slave_path c \<and> (fd, master_path c) \<in> set (fdtable s')"
    using ev by (auto simp: failed_open_events_no_success dest: master_path_inj)
  then show "r = Inr fd" "name = slave_path c" "(fd, master_path c) \<in> set (fdtable s')" by simp_all
next
  fix pre c post
  assume a: "candidates = pre @ c # post" "list_all (skipped w) pre" "open_err w (master_path c) = None"
  from scan_success [OF a(2,3), of post pts_name s] assms a(1)
  have "r = Inr (lowest_unused (open_fds s)) \<and> name = slave_path c
      \<and> ev_open (master_path c) (Inr (lowest_unused (open_fds s))) \<in> set (new_events s s')"
    by (auto simp: search_for_pty_scan)
  then show "r = Inr (lowest_unused (open_fds s))" "name = slave_path c"
    "ev_open (master_path c) (Inr (lowest_unused (open_fds s))) \<in> set (new_events s s')" by simp_all
next
  assume a: "list_all (skipped w) candidates"
  from scan_all_skipped [OF a, of pts_name s] assms
  have "r = Inl out_of_ptys \<and> opened_paths (new_events s s') = map master_path candidates"
    by (auto simp: search_for_pty_scan opened_paths_failed [OF a])
  then show "r = Inl out_of_ptys" "opened_paths (new_events s s') = map master_path candidates"
    by simp_all
next
  assume a: "\<forall>q fd. ev_open q (Inr fd) \<notin> set (new_events s s')"
  from search_for_pty_cases [OF assms] show "r = Inl out_of_ptys"
  proof (elim disjE exE conjE)
    fix pre c post
    assume "new_events s s' = failed_open_events w pre
              @ [ev_open (master_path c) (Inr (lowest_unused (open_fds s)))]"
    then have "ev_open (master_path c) (Inr (lowest_unused (open_fds s))) \<in> set (new_events s s')"
      by simp
    with a show ?thesis by blast
  qed
next
  fix pre c post and e0 :: errno and g :: PtyGenerator and s0 :: os
  assume a: "candidates = pre @ c # post" "list_all (skipped w) pre"
    "open_err w (master_path c) = None" "open_err w ''/dev/ptmx'' = Some e0"
  let ?s1 = "emit (ev_open ''/dev/ptmx'' (Inl e0)) s0"
  have "search_for_pty w (ptyName g) ?s1 =
      (Inr (lowest_unused (open_fds ?s1)), slave_path c,
       ?s1\<lparr>fdtable := fdtable ?s1 @ [(lowest_unused (open_fds ?s1), master_path c)],
           trace := trace ?s1 @ failed_open_events w pre
                      @ [ev_open (master_path c) (Inr (lowest_unused (open_fds ?s1)))]\<rparr>)"
    unfolding search_for_pty_scan a(1) by (rule scan_success [OF a(2,3)])
  from openMaster_fallback [OF a(4) this]
  have "fst (openMaster w g s0) = Inr (lowest_unused (open_fds s0))
      \<and> masterFd (fst (snd (openMaster w g s0))) = lowest_unused (open_fds s0)
      \<and> getSlavePtyName (fst (snd (openMaster w g s0))) = slave_path c"
    by (simp add: getSlavePtyName_def)
  then show "fst (openMaster w g s0) = Inr (lowest_unused (open_fds s0))"
    "masterFd (fst (snd (openMaster w g s0))) = lowest_unused (open_fds s0)"
    "getSlavePtyName (fst (snd (openMaster w g s0))) = slave_path c" by simp_all
next
  fix e0 :: errno and g :: PtyGenerator and s0 :: os
  assume a: "list_all (skipped w) candidates" "open_err w ''/dev/ptmx'' = Some e0"
  let ?s1 = "emit (ev_open ''/dev/ptmx'' (Inl e0)) s0"
  have "search_for_pty w (ptyName g) ?s1 =
      (Inl out_of_ptys, (if candidates = [] then ptyName g else master_path (last candidates)),
       ?s1\<lparr>trace := trace ?s1 @ failed_open_events w candidates\<rparr>)"
    unfolding search_for_pty_scan by (rule scan_all_skipped [OF a(1)])
  from openMaster_fallback [OF a(2) this]
  show "fst (openMaster w g s0) = Inl out_of_ptys" by simp
qed


text \<open>
  Two instances: \<open>/dev/ptyp0\<close> is busy and \<open>/dev/ptyp1\<close> opens; every candidate
  fails with \<open>EIO\<close>.
\<close>

theorem search_for_pty_first_success_witness:
  "fst (search_for_pty world_scan_found [] os0) = Inr 3
   \<and> fst (snd (search_for_pty world_scan_found [] os0)) = ''/dev/ttyp1''
   \<and> ev_open ''/dev/ptyp1'' (Inr 3)
        \<in> set (new_events os0 (snd (snd (search_for_pty world_scan_found [] os0))))
   \<and> fst (openMaster world_scan_found PtyGenerator_new os0) = Inr 3
   \<and> getSlavePtyName (fst (snd (openMaster world_scan_found PtyGenerator_new os0))) = ''/dev/ttyp1''
   \<and> fst (search_for_pty world_scan_busy [] os0) = Inl out_of_ptys
   \<and> length (opened_paths (new_events os0 (snd (snd (search_for_pty world_scan_busy [] os0))))) = 256"
proof -
  let ?X = "search_for_pty world_scan_found [] os0"
  let ?Y = "search_for_pty world_scan_busy [] os0"
  have x: "?X = (fst ?X, fst (snd ?X), snd (snd ?X))" by simp
  have y: "?Y = (fst ?Y, fst (snd ?Y), snd (snd ?Y))" by simp
  have sk: "list_all (skipped world_scan_found) [''p0'']"
    by (simp add: skipped_def world_scan_found_def world0_def master_path_def)
  have ok: "open_err world_scan_found (master_path ''p1'') = None"
    by (simp add: world_scan_found_def world0_def master_path_def)
  have busy: "list_all (skipped world_scan_busy) candidates"
    by (simp add: list_all_iff skipped_def world_scan_busy_def world0_def)
  from search_for_pty_first_success [OF x] candidates_split2 sk ok
  have a: "fst ?X = Inr (lowest_unused (open_fds os0)) \<and> fst (snd ?X) = slave_path ''p1''
        \<and> ev_open (master_path ''p1'') (Inr (lowest_unused (open_fds os0)))
             \<in> set (new_events os0 (snd (snd ?X)))"
    by blast
  have m: "open_err world_scan_found ''/dev/ptmx'' = Some ENOENT"
    by (simp add: world_scan_found_def world0_def)
  from search_for_pty_first_success [OF x] candidates_split2 sk ok m
  have a': "fst (openMaster world_scan_found PtyGenerator_new os0) = Inr (lowest_unused (open_fds os0))
        \<and> getSlavePtyName (fst (snd (openMaster world_scan_found PtyGenerator_new os0))) = slave_path ''p1''"
    by blast
  from search_for_pty_first_success [OF y] busy
  have b: "fst ?Y = Inl out_of_ptys
        \<and> opened_paths (new_events os0 (snd (snd ?Y))) = map master_path candidates"
    by blast
  from a a' b show ?thesis
    by (simp add: lowest_unused_os0 slave_path_def master_path_def length_candidates)
qed

section \<open>C5: when the scan is used\<close>

text \<open>
  Claim C5, as the code has it. The claim says the scan is used only when the open of
  the multiplexer fails because the device is absent. \<open>ptym_open\<close> does not look at
  \<open>errno\<close> after that open: the scan is used after any failure of it. In the
  instance below the open fails with \<open>EACCES\<close>, the scan runs and allocation
  succeeds on \<open>/dev/ptyp0\<close>.
\<close>

theorem scan_after_permission_denied_counterexample:
  "open_err world_ptmx_denied ''/dev/ptmx'' = Some EACCES
   \<and> scan_used os0 (snd (snd (openMaster world_ptmx_denied PtyGenerator_new os0)))
   \<and> fst (openMaster world_ptmx_denied PtyGenerator_new os0) = Inr 3
   \<and> ptyName (fst (snd (openMaster world_ptmx_denied PtyGenerator_new os0))) = ''/dev/ttyp0''"
proof -
  have "open_err world_ptmx_denied ''/dev/ptmx'' = Some EACCES"
    by (simp add: world_ptmx_denied_def world0_def)
  moreover have "ptyName (fst (snd (openMaster world_ptmx_denied PtyGenerator_new os0))) = ''/dev/ttyp0''"
    by code_simp
  ultimately show ?thesis using ptmx_denied_scan_used ptmx_denied_result by simp
qed

text \<open>
  Claim C5, amended. \<open>openMaster\<close> uses the scan (it opens some candidate master
  device) exactly when the open of \<open>/dev/ptmx\<close> fails, whatever the error. When that
  open succeeds, no scan takes place: a failed slave-name lookup throws
  \<open>unix_exception("ptsname(<fd>) failed")\<close>, a failed grant
  \<open>unix_exception("grantpt(<name>) failed")\<close>, a failed unlock
  \<open>unix_exception("unlockpt(<name>) failed")\<close>, and otherwise the multiplexer
  descriptor and the slave name are returned.
\<close>

theorem openMaster_scan_iff_ptmx_open_fails:
  assumes "openMaster w g s = (r, g', s')"
  shows "(scan_used s s' \<longleftrightarrow> open_err w ''/dev/ptmx'' \<noteq> None)
       \<and> (open_err w ''/dev/ptmx'' = None \<longrightarrow>
            (case ptsname_res w (lowest_unused (open_fds s)) of
               None \<Rightarrow>
                 r = Inl (Thrown unix_exception
                           (''ptsname('' @ toString_int w (lowest_unused (open_fds s)) @ '') failed''))
             | Some name \<Rightarrow>
                 if \<not> grantpt_ok w (lowest_unused (open_fds s))
                 then r = Inl (Thrown unix_exception (''grantpt('' @ toString_str w name @ '') failed''))
                 else if \<not> unlockpt_ok w (lowest_unused (open_fds s))
                 then r = Inl (Thrown unix_exception (''unlockpt('' @ toString_str w name @ '') failed''))
                 else r = Inr (lowest_unused (open_fds s)) \<and> ptyName g' = name
                      \<and> masterFd g' = lowest_unused (open_fds s)))"
proof
  from openMaster_ptym_open [OF assms]
  have p: "ptym_open w (ptyName g) s = (r, ptyName g', s')" by simp
  show "scan_used s s' \<longleftrightarrow> open_err w ''/dev/ptmx'' \<noteq> None"
    by (rule ptym_open_scan_used [OF p])
  show "open_err w ''/dev/ptmx'' = None \<longrightarrow>
            (case ptsname_res w (lowest_unused (open_fds s)) of
               None \<Rightarrow>
                 r = Inl (Thrown unix_exception
                           (''ptsname('' @ toString_int w (lowest_unused (open_fds s)) @ '') failed''))
             | Some name \<Rightarrow>
                 if \<not> grantpt_ok w (lowest_unused (open_fds s))
                 then r = Inl (Thrown unix_exception (''grantpt('' @ toString_str w name @ '') failed''))
                 else if \<not> unlockpt_ok w (lowest_unused (open_fds s))
                 then r = Inl (Thrown unix_exception (''unlockpt('' @ toString_str w name @ '') failed''))
                 else r = Inr (lowest_unused (open_fds s)) \<and> ptyName g' = name
                      \<and> masterFd g' = lowest_unused (open_fds s))"
  proof
    assume n: "open_err w ''/dev/ptmx'' = None"
    from openMaster_ptym_open [OF assms] p show "case ptsname_res w (lowest_unused (open_fds s)) of
               None \<Rightarrow>
                 r = Inl (Thrown unix_exception
                           (''ptsname('' @ toString_int w (lowest_unused (open_fds s)) @ '') failed''))
             | Some name \<Rightarrow>
                 if \<not> grantpt_ok w (lowest_unused (open_fds s))
                 then r = Inl (Thrown unix_exception (''grantpt('' @ toString_str w name @ '') failed''))
                 else if \<not> unlockpt_ok w (lowest_unused (open_fds s))
                 then r = Inl (Thrown unix_exception (''unlockpt('' @ toString_str w name @ '') failed''))
                 else r = Inr (lowest_unused (open_fds s)) \<and> ptyName g' = name
                      \<and> masterFd g' = lowest_unused (open_fds s)"
      by (auto simp: ptym_open_primary [OF n] Let_def split: option.splits if_splits)
  qed
qed

theorem openMaster_scan_iff_ptmx_open_fails_witness:
  "scan_used os0 (snd (snd (openMaster world_ptmx_denied PtyGenerator_new os0)))
   \<and> \<not> scan_used os0 (snd (snd (openMaster world_no_name PtyGenerator_new os0)))
   \<and> fst (openMaster world_no_name PtyGenerator_new os0)
       = Inl (Thrown unix_exception ''ptsname(3) failed'')
   \<and> fst (openMaster world_no_grant PtyGenerator_new os0)
       = Inl (Thrown unix_exception ''grantpt(/dev/pts/7) failed'')
   \<and> fst (openMaster world_no_unlock PtyGenerator_new os0)
       = Inl (Thrown unix_exception ''unlockpt(/dev/pts/7) failed'')
   \<and> fst (openMaster world0 PtyGenerator_new os0) = Inr 3
   \<and> getSlavePtyName (fst (snd (openMaster world0 PtyGenerator_new os0))) = ''/dev/pts/7''"
proof -
  let ?X = "openMaster world_ptmx_denied PtyGenerator_new os0"
  let ?Y = "openMaster world_no_name PtyGenerator_new os0"
  have x: "?X = (fst ?X, fst (snd ?X), snd (snd ?X))" by simp
  have y: "?Y = (fst ?Y, fst (snd ?Y), snd (snd ?Y))" by simp
  have e: "open_err world_ptmx_denied ''/dev/ptmx'' = Some EACCES"
    by (simp add: world_ptmx_denied_def world0_def)
  have n: "open_err world_no_name ''/dev/ptmx'' = None"
    by (simp add: world_no_name_def world0_def)
  have p: "ptsname_res world_no_name (lowest_unused (open_fds os0)) = None"
    by (simp add: world_no_name_def world0_def)
  have t: "toString_int world_no_name (lowest_unused (open_fds os0)) = ''3''"
    by code_simp
  from openMaster_scan_iff_ptmx_open_fails [OF x] e
  have a: "scan_used os0 (snd (snd ?X))" by simp
  from openMaster_scan_iff_ptmx_open_fails [OF y] n p t
  have b: "\<not> scan_used os0 (snd (snd ?Y)) \<and> fst ?Y = Inl (Thrown unix_exception ''ptsname(3) failed'')"
    by simp
  let ?G = "openMaster world_no_grant PtyGenerator_new os0"
  let ?U = "openMaster world_no_unlock PtyGenerator_new os0"
  let ?S = "openMaster world0 PtyGenerator_new os0"
  have g: "?G = (fst ?G, fst (snd ?G), snd (snd ?G))" by simp
  have u: "?U = (fst ?U, fst (snd ?U), snd (snd ?U))" by simp
  have s: "?S = (fst ?S, fst (snd ?S), snd (snd ?S))" by simp
  from openMaster_scan_iff_ptmx_open_fails [OF g]
  have c: "fst ?G = Inl (Thrown unix_exception ''grantpt(/dev/pts/7) failed'')"
    by (simp add: world_no_grant_def world0_def)
  from openMaster_scan_iff_ptmx_open_fails [OF u]
  have d: "fst ?U = Inl (Thrown unix_exception ''unlockpt(/dev/pts/7) failed'')"
    by (simp add: world_no_unlock_def world0_def)
  from openMaster_scan_iff_ptmx_open_fails [OF s]
  have e': "fst ?S = Inr 3 \<and> getSlavePtyName (fst (snd ?S)) = ''/dev/pts/7''"
    by (simp add: world0_def lowest_unused_os0 getSlavePtyName_def)
  from a b c d e' show ?thesis by simp
qed

section \<open>C2: descriptors left open by \<open>openMaster\<close>\<close>

text \<open>
  Claim C2, as the code has it. The claim says that no descriptor opened by a failing
  allocation remains open. On the primary path \<open>ptym_open\<close> throws without closing
  the descriptor of \<open>/dev/ptmx\<close>: in the instance below \<open>ptsname\<close> fails, and
  descriptor 3, opened by the call, is still open afterwards.
\<close>

theorem openMaster_leaves_ptmx_open_counterexample:
  "fst (openMaster world_no_name PtyGenerator_new os0) = Inl (Thrown unix_exception ''ptsname(3) failed'')
   \<and> open_fds os0 = [0, 1, 2]
   \<and> open_fds (snd (snd (openMaster world_no_name PtyGenerator_new os0))) = [0, 1, 2, 3]
   \<and> file_of (snd (snd (openMaster world_no_name PtyGenerator_new os0))) 3 = ''/dev/ptmx''"
  by code_simp

text \<open>
  Claim C2, amended. \<open>openMaster\<close> never calls \<open>close\<close>. On success exactly one
  descriptor, the master it returns, has been added to the open descriptors. When it
  fails in the scan (the open of \<open>/dev/ptmx\<close> failed), the descriptor table is the
  one before the call: a failed open creates no descriptor. When it fails on the
  primary path (slave-name lookup, grant or unlock), the descriptor of \<open>/dev/ptmx\<close>
  that it opened stays open.
\<close>

theorem openMaster_descriptors:
  assumes "openMaster w g s = (r, g', s')"
  shows "(\<forall>fd. r = Inr fd \<longrightarrow> fd \<notin> set (open_fds s) \<and> open_fds s' = open_fds s @ [fd])
       \<and> (\<forall>ex. r = Inl ex \<longrightarrow> open_err w ''/dev/ptmx'' \<noteq> None \<longrightarrow> fdtable s' = fdtable s)
       \<and> (\<forall>ex. r = Inl ex \<longrightarrow> open_err w ''/dev/ptmx'' = None \<longrightarrow>
             fdtable s' = fdtable s @ [(lowest_unused (open_fds s), ''/dev/ptmx'')])
       \<and> (\<forall>fd ok. ev_close fd ok \<notin> set (new_events s s'))"
proof -
  from openMaster_ptym_open [OF assms]
  have p: "ptym_open w (ptyName g) s = (r, ptyName g', s')" by simp
  show ?thesis
  proof (cases "open_err w ''/dev/ptmx''")
    case None
    from p show ?thesis
      by (auto simp: None ptym_open_primary [OF None] Let_def open_fds_def lowest_unused_fresh_pair
            emit_def new_events_def split: option.splits if_splits)
  next
    case (Some e)
    let ?s1 = "emit (ev_open ''/dev/ptmx'' (Inl e)) s"
    from p have q: "search_for_pty w (ptyName g) ?s1 = (r, ptyName g', s')"
      by (simp add: ptym_open_fallback [OF Some])
    from search_for_pty_fdtable [OF q]
    have f: "(\<forall>ex. r = Inl ex \<longrightarrow> fdtable s' = fdtable s)
       \<and> (\<forall>fd. r = Inr fd \<longrightarrow> fd = lowest_unused (open_fds s)
              \<and> (\<exists>c. fdtable s' = fdtable s @ [(fd, master_path c)]))"
      by simp
    have t1: "trace ?s1 = trace s @ [ev_open ''/dev/ptmx'' (Inl e)]" by (simp add: emit_def)
    obtain fs where fs: "trace s' = trace ?s1 @ fs"
      using search_for_pty_trace_extends [of w "ptyName g" ?s1] q by auto
    have ne: "new_events s s' = [ev_open ''/dev/ptmx'' (Inl e)] @ new_events ?s1 s'"
      by (rule new_events_extend [OF t1 fs])
    have nc: "\<forall>fd ok. ev_close fd ok \<notin> set (new_events ?s1 s')"
      using search_for_pty_cases [OF q] by (auto simp: failed_open_events_def split: option.splits)
    from f nc show ?thesis
      by (auto simp: Some ne open_fds_def lowest_unused_fresh_pair)
  qed
qed


theorem openMaster_descriptors_witness:
  "open_fds (snd (snd (openMaster world_ptmx_denied PtyGenerator_new os0))) = open_fds os0 @ [3]
   \<and> fdtable (snd (snd (openMaster world_scan_stop PtyGenerator_new os0))) = fdtable os0
   \<and> fdtable (snd (snd (openMaster world_no_name PtyGenerator_new os0)))
       = fdtable os0 @ [(3, ''/dev/ptmx'')]"
proof -
  let ?X = "openMaster world_ptmx_denied PtyGenerator_new os0"
  let ?Y = "openMaster world_no_name PtyGenerator_new os0"
  let ?Z = "openMaster world_scan_stop PtyGenerator_new os0"
  have x: "?X = (fst ?X, fst (snd ?X), snd (snd ?X))" by simp
  have y: "?Y = (fst ?Y, fst (snd ?Y), snd (snd ?Y))" by simp
  have z: "?Z = (fst ?Z, fst (snd ?Z), snd (snd ?Z))" by simp
  have ny: "open_err world_no_name ''/dev/ptmx'' = None"
    by (simp add: world_no_name_def world0_def)
  have ez: "open_err world_scan_stop ''/dev/ptmx'' = Some ENOENT"
    by (simp add: world_scan_stop_def world0_def)
  from openMaster_descriptors [OF x] ptmx_denied_result
  have a: "open_fds (snd (snd ?X)) = open_fds os0 @ [3]" by simp
  from openMaster_descriptors [OF y] no_name_result ny
  have b: "fdtable (snd (snd ?Y)) = fdtable os0 @ [(lowest_unused (open_fds os0), ''/dev/ptmx'')]" by simp
  from openMaster_descriptors [OF z] scan_stop_result ez
  have c: "fdtable (snd (snd ?Z)) = fdtable os0" by simp
  from a b c show ?thesis by (simp add: lowest_unused_os0)
qed

section \<open>The child: basic facts\<close>

lemma trace_sys_close: "trace (sys_close fd s) = trace s @ [ev_close fd (fd \<in> set (open_fds s))]"
  by (simp add: sys_close_def emit_def)

lemma map_fst_remove: "map fst (filter (\<lambda>p. fst p \<noteq> fd) t) = filter (\<lambda>k. k \<noteq> fd) (map fst t)"
  by (induction t) auto

lemma map_of_remove:
  "map_of (filter (\<lambda>p. fst p \<noteq> fd) t) k = (if k = fd then None else map_of t k)"
  by (induction t) auto

lemma open_fds_sys_close: "open_fds (sys_close fd s) = filter (\<lambda>k. k \<noteq> fd) (open_fds s)"
proof (cases "fd \<in> set (open_fds s)")
  case True
  then show ?thesis by (simp add: sys_close_def emit_def open_fds_def map_fst_remove)
next
  case False
  then have "filter (\<lambda>k. k \<noteq> fd) (open_fds s) = open_fds s"
    by (auto simp: filter_id_conv)
  with False show ?thesis by (simp add: sys_close_def)
qed

lemma g0_master_open: "masterFd g0 \<in> set (open_fds os1)"
  by code_simp

lemma lowest_unused_os1: "lowest_unused (open_fds os1) = 5"
  by code_simp

lemma runChild_slave_open_fails:
  assumes "chdir_succeeds w workingDirectory" and "setsid_ok w" and "open_err w (ptyName g) = Some e"
  shows "runChild w cmd0 cmd_rest workingDirectory g s =
           (threw (slave_open_failed w g),
            (case workingDirectory of None \<Rightarrow> s | Some d \<Rightarrow> s\<lparr>cwd := d\<rparr>)
            \<lparr>trace := trace s @ chdir_events workingDirectory @
               [ev_setsid True,
                ev_chown (ptyName g) (getuid w) (getgrnam_tty w) (chown_ok w (ptyName g)),
                ev_chmod (ptyName g) (chmod_ok w (ptyName g)),
                ev_open (ptyName g) (Inl e)]\<rparr>)"
  using assms
  by (cases workingDirectory)
     (simp_all add: runChild_def runChild_session_def openSlaveAndCloseMaster_def Let_def
        sys_open_fail emit_def chdir_succeeds_def chdir_events_def slave_open_failed_def)


lemma environ_emit [simp]: "environ (emit e s) = environ s"
  by (simp add: emit_def)

lemma collect_fds_filter:
  "collect_fds names fds = fds @ filter (\<lambda>fd. 2 < fd) (map parse_fd names)"
  by (induction names arbitrary: fds) (simp_all add: Let_def parse_fd_def)

lemma close_calls_append: "close_calls (xs @ ys) = close_calls xs @ close_calls ys"
  by (induction xs rule: close_calls.induct) simp_all

lemma close_fds_trace:
  "\<exists>es. trace (close_fds fds s) = trace s @ es \<and> close_calls es = fds \<and> length es = length fds"
proof (induction fds arbitrary: s)
  case Nil
  show ?case by simp
next
  case (Cons fd fds)
  from Cons.IH [of "sys_close fd s"] obtain es where
    es: "trace (close_fds fds (sys_close fd s)) = trace (sys_close fd s) @ es"
      "close_calls es = fds" "length es = length fds" by blast
  have "trace (close_fds (fd # fds) s) = trace s @ (ev_close fd (fd \<in> set (open_fds s)) # es)"
    using es(1) by (simp add: trace_sys_close)
  moreover have "close_calls (ev_close fd (fd \<in> set (open_fds s)) # es) = fd # fds"
    using es(2) by simp
  moreover have "length (ev_close fd (fd \<in> set (open_fds s)) # es) = length (fd # fds)"
    using es(3) by simp
  ultimately show ?case by blast
qed

lemma fdtable_sys_close: "fdtable (sys_close fd s) = filter (\<lambda>p. fst p \<noteq> fd) (fdtable s)"
proof (cases "fd \<in> set (open_fds s)")
  case True
  then show ?thesis by (simp add: sys_close_def)
next
  case False
  then have "filter (\<lambda>p. fst p \<noteq> fd) (fdtable s) = fdtable s"
    by (auto simp: filter_id_conv open_fds_def)
  with False show ?thesis by (simp add: sys_close_def)
qed

lemma close_fds_fdtable:
  "fdtable (close_fds fds s) = filter (\<lambda>p. fst p \<notin> set fds) (fdtable s)"
  by (induction fds arbitrary: s) (auto simp: fdtable_sys_close intro: filter_cong)

lemma dir_listing_os1:
  "dir_listing world0 (fdDirectory world0) (fdtable os1)
     = [''.'', ''..'', ''0'', ''1'', ''2'', ''3'', ''4'', ''7'', ''5'']"
  by code_simp

lemma parse_fd_examples:
  "parse_fd ''.'' = 0" "parse_fd ''..'' = 0" "parse_fd ''0'' = 0" "parse_fd ''1'' = 1"
  "parse_fd ''2'' = 2" "parse_fd ''3'' = 3" "parse_fd ''4'' = 4" "parse_fd ''7'' = 7"
  "parse_fd ''5'' = 5"
  by (simp_all add: parse_fd_def strtoul10_def int_of_ulong_def isspace_def isdigit_def
        ULONG_MAX_def Let_def)


lemma decimal_5: "decimal 5 = ''5''"
  by code_simp

lemmas child_defs = forkAndExec_def runChild_def runChild_session_def runChild_stdio_def
  runChild_exec_def dup_onto_def sys_dup2_def openSlaveAndCloseMaster_def sys_open_def
  sys_close_def throw_via_pipe_def what_def child_message_def caught_as_std_exception_def
  emit_def Let_def open_fds_def lowest_unused_def file_of_def
  STDIN_FILENO_def STDOUT_FILENO_def STDERR_FILENO_def

section \<open>The bootstrap sequence of the child\<close>

text \<open>
  The calls of \<open>runChild\<close> when every checked call before \<open>execvp\<close> succeeds, in
  the order in which they are made: \<open>chdir\<close> (when a directory was given),
  \<open>setsid\<close>, \<open>chown\<close>, \<open>chmod\<close>, the open of the slave, the \<open>close\<close> of the
  master, the \<open>ioctl\<close>s of the platform, three \<open>dup2\<close>, the \<open>close\<close> of the
  slave descriptor, the \<open>close\<close> calls of \<open>closeUnusedFiles\<close>, the environment
  calls, three \<open>signal\<close> calls and \<open>execvp\<close>.
\<close>

lemma trace_fixEnvironment: "trace (fixEnvironment w s) = trace s @ env_events w"
  by (simp add: fixEnvironment_def sys_putenv_def sys_unsetenv_def Let_def emit_def env_events_def)

lemma trace_closeUnusedFiles:
  "\<exists>cl. trace (closeUnusedFiles w s) = trace s @ cl \<and> length (close_calls cl) = length cl"
proof -
  obtain es where "trace (close_fds (collect_fds (dir_listing w (fdDirectory w) (fdtable s)) []) s) = trace s @ es"
    "close_calls es = collect_fds (dir_listing w (fdDirectory w) (fdtable s)) []"
    "length es = length (collect_fds (dir_listing w (fdDirectory w) (fdtable s)) [])"
    using close_fds_trace by blast
  then show ?thesis by (auto simp: closeUnusedFiles_def)
qed

lemma runChild_exec_trace:
  "\<exists>cl s'. length (close_calls cl) = length cl
     \<and> runChild_exec w cmd0 cmd_rest s =
         (if execvp_ok w cmd0 then image_replaced else threw (exec_failed w cmd0), s')
     \<and> trace s' = trace s @ cl @ env_events w @
         [ev_signal_dfl SIGINT, ev_signal_dfl SIGQUIT, ev_signal_dfl SIGCHLD,
          ev_execvp cmd0 (cmd0 # cmd_rest) (execvp_ok w cmd0)]"
proof -
  obtain cl where cl: "trace (closeUnusedFiles w s) = trace s @ cl" "length (close_calls cl) = length cl"
    using trace_closeUnusedFiles by blast
  show ?thesis
    by (rule exI [of _ cl])
       (simp add: cl runChild_exec_def Let_def sys_signal_dfl_def emit_def trace_fixEnvironment
          exec_failed_def)
qed

lemma open_fds_dup2:
  assumes "fd \<in> set (open_fds s)" and "dup2_ok w fd slot" and "sys_dup2 w fd slot s = (slot, s1)"
  shows "trace s1 = trace s @ [ev_dup2 fd slot True]"
    and "fd \<in> set (open_fds s1)"
    and "open_fds s1 = filter (\<lambda>k. k \<noteq> slot) (open_fds s) @ [slot]"
proof -
  from assms have s1: "s1 = emit (ev_dup2 fd slot True)
      (s\<lparr>fdtable := filter (\<lambda>p. fst p \<noteq> slot) (fdtable s) @ [(slot, file_of s fd)]\<rparr>)"
    by (simp add: sys_dup2_def)
  show "trace s1 = trace s @ [ev_dup2 fd slot True]" by (simp add: s1 emit_def)
  show o: "open_fds s1 = filter (\<lambda>k. k \<noteq> slot) (open_fds s) @ [slot]"
    by (simp add: s1 emit_def open_fds_def map_fst_remove)
  show "fd \<in> set (open_fds s1)" using assms(1) by (auto simp: o)
qed

lemma sys_dup2_ok:
  "fd \<in> set (open_fds s) \<Longrightarrow> dup2_ok w fd slot \<Longrightarrow> fst (sys_dup2 w fd slot s) = slot"
  by (simp add: sys_dup2_def)

lemma runChild_stdio_trace:
  assumes "fd \<in> set (open_fds s)" and "2 < fd"
      and "dup2_ok w fd 0" and "dup2_ok w fd 1" and "dup2_ok w fd 2"
  shows "\<exists>s4. runChild_stdio w cmd0 cmd_rest fd s = runChild_exec w cmd0 cmd_rest s4
           \<and> trace s4 = trace s @ [ev_dup2 fd 0 True, ev_dup2 fd 1 True, ev_dup2 fd 2 True,
                                     ev_close fd True]"
proof -
  obtain s1 where s1: "sys_dup2 w fd 0 s = (0, s1)"
    using sys_dup2_ok [OF assms(1,3)] by (cases "sys_dup2 w fd 0 s") auto
  from open_fds_dup2 [OF assms(1,3) s1]
  have t1: "trace s1 = trace s @ [ev_dup2 fd 0 True]" and o1: "fd \<in> set (open_fds s1)" by blast+
  obtain s2 where s2: "sys_dup2 w fd 1 s1 = (1, s2)"
    using sys_dup2_ok [OF o1 assms(4)] by (cases "sys_dup2 w fd 1 s1") auto
  from open_fds_dup2 [OF o1 assms(4) s2]
  have t2: "trace s2 = trace s1 @ [ev_dup2 fd 1 True]" and o2: "fd \<in> set (open_fds s2)" by blast+
  obtain s3 where s3: "sys_dup2 w fd 2 s2 = (2, s3)"
    using sys_dup2_ok [OF o2 assms(5)] by (cases "sys_dup2 w fd 2 s2") auto
  from open_fds_dup2 [OF o2 assms(5) s3]
  have t3: "trace s3 = trace s2 @ [ev_dup2 fd 2 True]" and o3: "fd \<in> set (open_fds s3)" by blast+
  have "runChild_stdio w cmd0 cmd_rest fd s = runChild_exec w cmd0 cmd_rest (sys_close fd s3)"
    using assms(2) s1 s2 s3
    by (simp add: runChild_stdio_def dup_onto_def STDIN_FILENO_def STDOUT_FILENO_def STDERR_FILENO_def)
  moreover have "trace (sys_close fd s3) = trace s @ [ev_dup2 fd 0 True, ev_dup2 fd 1 True,
      ev_dup2 fd 2 True, ev_close fd True]"
    using o3 by (simp add: trace_sys_close t1 t2 t3)
  ultimately show ?thesis by blast
qed


lemma openSlave_success:
  assumes "masterFd g \<in> set (open_fds s)" and "open_err w (ptyName g) = None"
  shows "\<exists>s2. openSlaveAndCloseMaster w g s = (Inr (lowest_unused (open_fds s)), s2)
           \<and> trace s2 = trace s @
                 [ev_chown (ptyName g) (getuid w) (getgrnam_tty w) (chown_ok w (ptyName g)),
                  ev_chmod (ptyName g) (chmod_ok w (ptyName g)),
                  ev_open (ptyName g) (Inr (lowest_unused (open_fds s))),
                  ev_close (masterFd g) True]
           \<and> lowest_unused (open_fds s) \<in> set (open_fds s2)"
proof -
  let ?fd = "lowest_unused (open_fds s)"
  let ?s3 = "emit (ev_open (ptyName g) (Inr ?fd))
               ((emit (ev_chmod (ptyName g) (chmod_ok w (ptyName g)))
                  (emit (ev_chown (ptyName g) (getuid w) (getgrnam_tty w) (chown_ok w (ptyName g))) s))
                \<lparr>fdtable := fdtable s @ [(?fd, ptyName g)]\<rparr>)"
  have ne: "?fd \<noteq> masterFd g"
    using assms(1) lowest_unused_fresh [of "open_fds s"] by auto
  have r: "openSlaveAndCloseMaster w g s = (Inr ?fd, sys_close (masterFd g) ?s3)"
    using assms(2) by (simp add: openSlaveAndCloseMaster_def Let_def sys_open_def)
  have o3: "open_fds ?s3 = open_fds s @ [?fd]" by (simp add: open_fds_def emit_def)
  have t: "trace (sys_close (masterFd g) ?s3) = trace s @
                 [ev_chown (ptyName g) (getuid w) (getgrnam_tty w) (chown_ok w (ptyName g)),
                  ev_chmod (ptyName g) (chmod_ok w (ptyName g)),
                  ev_open (ptyName g) (Inr ?fd),
                  ev_close (masterFd g) True]"
  proof -
    have c: "masterFd g \<in> set (open_fds ?s3)"
      using assms(1) by (simp add: open_fds_def emit_def)
    have "trace (sys_close (masterFd g) ?s3)
            = trace ?s3 @ [ev_close (masterFd g) (masterFd g \<in> set (open_fds ?s3))]"
      by (rule trace_sys_close)
    also have "\<dots> = trace ?s3 @ [ev_close (masterFd g) True]"
      by (simp only: c)
    also have "trace ?s3 = trace s @
                 [ev_chown (ptyName g) (getuid w) (getgrnam_tty w) (chown_ok w (ptyName g)),
                  ev_chmod (ptyName g) (chmod_ok w (ptyName g)),
                  ev_open (ptyName g) (Inr ?fd)]"
      by (simp add: emit_def)
    finally show ?thesis by simp
  qed
  have m: "?fd \<in> set (open_fds (sys_close (masterFd g) ?s3))"
    unfolding open_fds_sys_close o3 using ne by simp
  from r t m show ?thesis by blast
qed

lemma lowest_unused_above_2:
  assumes "0 \<in> set fds" and "1 \<in> set fds" and "2 \<in> set fds"
  shows "2 < lowest_unused fds"
proof -
  have "lowest_unused fds \<notin> set fds" by (rule lowest_unused_fresh)
  with assms have "lowest_unused fds \<noteq> 0" "lowest_unused fds \<noteq> 1" "lowest_unused fds \<noteq> 2"
    by auto
  with lowest_unused_nonneg [of fds] show ?thesis by arith
qed

lemma runChild_session_trace:
  assumes "masterFd g \<in> set (open_fds s)" and "stdio_open s"
      and "setsid_ok w" and "open_err w (ptyName g) = None"
      and "if def_TIOCSCTTY w then ioctl_TIOCSCTTY_ok w (lowest_unused (open_fds s)) else True"
      and "dup2_ok w (lowest_unused (open_fds s)) 0"
      and "dup2_ok w (lowest_unused (open_fds s)) 1"
      and "dup2_ok w (lowest_unused (open_fds s)) 2"
  shows "\<exists>cl s'. length (close_calls cl) = length cl
     \<and> runChild_session w cmd0 cmd_rest g s =
         (if execvp_ok w cmd0 then image_replaced else threw (exec_failed w cmd0), s')
     \<and> trace s' = trace s @ bootstrap_events w cmd0 cmd_rest None g (lowest_unused (open_fds s)) cl"
proof -
  let ?fd = "lowest_unused (open_fds s)"
  let ?s1 = "emit (ev_setsid True) s"
  have m1: "masterFd g \<in> set (open_fds ?s1)" using assms(1) by simp
  from openSlave_success [OF m1 assms(4)] obtain s2 where
    r2: "openSlaveAndCloseMaster w g ?s1 = (Inr ?fd, s2)"
    and t2: "trace s2 = trace ?s1 @
                 [ev_chown (ptyName g) (getuid w) (getgrnam_tty w) (chown_ok w (ptyName g)),
                  ev_chmod (ptyName g) (chmod_ok w (ptyName g)),
                  ev_open (ptyName g) (Inr ?fd),
                  ev_close (masterFd g) True]"
    and o2: "?fd \<in> set (open_fds s2)" by auto
  have gt: "2 < ?fd" using assms(2) by (simp add: stdio_open_def lowest_unused_above_2)
  let ?s3 = "if def_TIOCSCTTY w then emit (ev_ioctl_TIOCSCTTY ?fd True) s2 else s2"
  let ?s4 = "if def_sun w
             then emit (ev_ioctl_I_PUSH ?fd ''ttcompat'')
                    (emit (ev_ioctl_I_PUSH ?fd ''ldterm'') (emit (ev_ioctl_I_PUSH ?fd ''ptem'') ?s3))
             else ?s3"
  have o4: "?fd \<in> set (open_fds ?s4)" using o2 by simp
  have t4: "trace ?s4 = trace s2 @ ioctl_events w ?fd"
    by (simp add: ioctl_events_def emit_def)
  have r4: "runChild_session w cmd0 cmd_rest g s = runChild_stdio w cmd0 cmd_rest ?fd ?s4"
    using assms(3,5) r2 by (simp add: runChild_session_def Let_def split: if_splits)
  from runChild_stdio_trace [OF o4 gt assms(6,7,8), of cmd0 cmd_rest] obtain s5 where
    r5: "runChild_stdio w cmd0 cmd_rest ?fd ?s4 = runChild_exec w cmd0 cmd_rest s5"
    and t5: "trace s5 = trace ?s4 @ [ev_dup2 ?fd 0 True, ev_dup2 ?fd 1 True, ev_dup2 ?fd 2 True,
                                     ev_close ?fd True]" by blast
  from runChild_exec_trace [of w cmd0 cmd_rest s5] obtain cl s' where
    c: "length (close_calls cl) = length cl"
    and r6: "runChild_exec w cmd0 cmd_rest s5 =
         (if execvp_ok w cmd0 then image_replaced else threw (exec_failed w cmd0), s')"
    and t6: "trace s' = trace s5 @ cl @ env_events w @
         [ev_signal_dfl SIGINT, ev_signal_dfl SIGQUIT, ev_signal_dfl SIGCHLD,
          ev_execvp cmd0 (cmd0 # cmd_rest) (execvp_ok w cmd0)]" by blast
  have "trace s' = trace s @ bootstrap_events w cmd0 cmd_rest None g ?fd cl"
    unfolding t6 t5 t4 t2 by (simp add: bootstrap_events_def chdir_events_def emit_def)
  with c r4 r5 r6 show ?thesis by auto
qed

lemma runChild_trace:
  assumes "masterFd g \<in> set (open_fds s)" and "stdio_open s"
      and "bootstrap_calls_succeed w workingDirectory g (lowest_unused (open_fds s))"
  shows "\<exists>cl s'. length (close_calls cl) = length cl
     \<and> runChild w cmd0 cmd_rest workingDirectory g s =
         (if execvp_ok w cmd0 then image_replaced else threw (exec_failed w cmd0), s')
     \<and> trace s' = trace s @
         bootstrap_events w cmd0 cmd_rest workingDirectory g (lowest_unused (open_fds s)) cl"
proof (cases workingDirectory)
  case None
  from assms(3) runChild_session_trace [OF assms(1,2), of w cmd0 cmd_rest]
  obtain cl s' where "length (close_calls cl) = length cl"
    "runChild_session w cmd0 cmd_rest g s =
         (if execvp_ok w cmd0 then image_replaced else threw (exec_failed w cmd0), s')"
    "trace s' = trace s @ bootstrap_events w cmd0 cmd_rest None g (lowest_unused (open_fds s)) cl"
    unfolding bootstrap_calls_succeed_def by blast
  then show ?thesis by (auto simp: None runChild_def)
next
  case (Some d)
  let ?s0 = "emit (ev_chdir d True) (s\<lparr>cwd := d\<rparr>)"
  have o: "open_fds ?s0 = open_fds s" by (simp add: open_fds_def emit_def)
  have a: "masterFd g \<in> set (open_fds ?s0)" "stdio_open ?s0"
    using assms(1,2) by (simp_all add: open_fds_def emit_def stdio_open_def)
  from assms(3) runChild_session_trace [OF a, of w cmd0 cmd_rest]
  obtain cl s' where c: "length (close_calls cl) = length cl"
    and r: "runChild_session w cmd0 cmd_rest g ?s0 =
         (if execvp_ok w cmd0 then image_replaced else threw (exec_failed w cmd0), s')"
    and t: "trace s' = trace ?s0 @ bootstrap_events w cmd0 cmd_rest None g (lowest_unused (open_fds s)) cl"
    unfolding bootstrap_calls_succeed_def o by blast
  have ok: "chdir_ok w d" using assms(3) by (simp add: bootstrap_calls_succeed_def chdir_succeeds_def Some)
  have "trace s' = trace s @ bootstrap_events w cmd0 cmd_rest (Some d) g (lowest_unused (open_fds s)) cl"
    by (simp add: t emit_def bootstrap_events_def chdir_events_def)
  with c r ok show ?thesis by (auto simp: Some runChild_def)
qed


text \<open>
  With the inherited descriptors 0, 1, 2 and the master open, and every checked call
  succeeding, the child ends in the replaced process image after exactly the calls of
  \<open>bootstrap_events\<close>, in that order.
\<close>

theorem bootstrap_steps_in_order:
  assumes "fork_res w = 0" and "masterFd g \<in> set (open_fds s)" and "stdio_open s"
      and "bootstrap_calls_succeed w workingDirectory g (lowest_unused (open_fds s))"
      and "execvp_ok w cmd0"
      and "forkAndExec w cmd0 cmd_rest workingDirectory g s = (r, s')"
  shows "r = replaced
       \<and> (\<exists>cl. length (close_calls cl) = length cl
             \<and> new_events s s' =
                 bootstrap_events w cmd0 cmd_rest workingDirectory g (lowest_unused (open_fds s)) cl)"
proof -
  from runChild_trace [OF assms(2,3,4), of cmd0 cmd_rest] assms(5)
  obtain cl s1 where c: "length (close_calls cl) = length cl"
    and r: "runChild w cmd0 cmd_rest workingDirectory g s = (image_replaced, s1)"
    and n: "trace s1 = trace s @
              bootstrap_events w cmd0 cmd_rest workingDirectory g (lowest_unused (open_fds s)) cl"
    by auto
  from assms(6) r have "r = replaced" "s' = s1"
    by (simp_all add: forkAndExec_def assms(1))
  with c n show ?thesis by (auto simp: new_events_def)
qed

text \<open>
  When only \<open>execvp\<close> fails, the same calls are followed by the diagnostic on
  \<open>std::cerr\<close>, built from \<open>cmd[0]\<close>, and by \<open>exit(1)\<close>.
\<close>

theorem exec_failure_exits_with_status_1:
  assumes "fork_res w = 0" and "masterFd g \<in> set (open_fds s)" and "stdio_open s"
      and "bootstrap_calls_succeed w workingDirectory g (lowest_unused (open_fds s))"
      and "\<not> execvp_ok w cmd0"
      and "forkAndExec w cmd0 cmd_rest workingDirectory g s = (r, s')"
  shows "r = exited 1
       \<and> (\<exists>cl. length (close_calls cl) = length cl
             \<and> new_events s s' =
                 bootstrap_events w cmd0 cmd_rest workingDirectory g (lowest_unused (open_fds s)) cl
                 @ [ev_cerr (what w (exec_failed w cmd0) @ endl), ev_exit 1])
       \<and> what w (exec_failed w cmd0)
           = unix_what w (''Can'' @ [CHR 0x27] @ ''t execute '' @ [CHR 0x27] @ toString_str w cmd0 @ [CHR 0x27])"
proof -
  from runChild_trace [OF assms(2,3,4), of cmd0 cmd_rest] assms(5)
  obtain cl s1 where c: "length (close_calls cl) = length cl"
    and r: "runChild w cmd0 cmd_rest workingDirectory g s = (threw (exec_failed w cmd0), s1)"
    and n: "trace s1 = trace s @
              bootstrap_events w cmd0 cmd_rest workingDirectory g (lowest_unused (open_fds s)) cl"
    by auto
  have k: "caught_as_std_exception (exec_failed w cmd0)"
    by (simp add: caught_as_std_exception_def exec_failed_def)
  from assms(6) r k have r1: "r = exited 1"
    and s': "s' = emit (ev_exit 1) (emit (ev_cerr (what w (exec_failed w cmd0) @ endl)) s1)"
    by (simp_all add: forkAndExec_def assms(1))
  have "new_events s s' =
          bootstrap_events w cmd0 cmd_rest workingDirectory g (lowest_unused (open_fds s)) cl
          @ [ev_cerr (what w (exec_failed w cmd0) @ endl), ev_exit 1]"
    by (simp add: s' new_events_def emit_def n)
  moreover have "what w (exec_failed w cmd0)
      = unix_what w (''Can'' @ [CHR 0x27] @ ''t execute '' @ [CHR 0x27] @ toString_str w cmd0 @ [CHR 0x27])"
    by (simp add: what_def exec_failed_def)
  ultimately show ?thesis using r1 c by blast
qed

text \<open>
  A failed \<open>chdir\<close> or \<open>setsid\<close> ends the child at once: the diagnostic goes to
  \<open>std::cerr\<close> and the child exits with status 1.
\<close>

theorem chdir_or_setsid_failure_exits_with_status_1:
  assumes "fork_res w = 0"
      and "forkAndExec w cmd0 cmd_rest workingDirectory g s = (r, s')"
  shows "(\<forall>d. workingDirectory = Some d \<longrightarrow> \<not> chdir_ok w d \<longrightarrow>
            r = exited 1
            \<and> new_events s s' =
                [ev_chdir d False,
                 ev_cerr (unix_what w (''Error from child: chdir('' @ [CHR 0x22] @ d @ [CHR 0x22] @ '')'') @ endl),
                 ev_exit 1])
       \<and> (chdir_succeeds w workingDirectory \<longrightarrow> \<not> setsid_ok w \<longrightarrow>
            r = exited 1
            \<and> new_events s s' =
                chdir_events workingDirectory @
                [ev_setsid False,
                 ev_cerr (unix_what w ''Error from child: setsid()'' @ endl),
                 ev_exit 1])"
  using assms
  by (cases workingDirectory)
     (auto simp: forkAndExec_def runChild_def runChild_session_def caught_as_std_exception_def
        what_def child_message_def emit_def new_events_def chdir_succeeds_def chdir_events_def)

lemma stdio_open_os1: "stdio_open os1"
  by (simp add: stdio_open_def open_fds_def os1_def os0_def)

lemma bootstrap_calls_succeed_world0:
  "bootstrap_calls_succeed world0 (Some ''/home'') g0 (lowest_unused (open_fds os1))"
  by (simp add: bootstrap_calls_succeed_def chdir_succeeds_def world0_def)

theorem bootstrap_steps_in_order_witness:
  "fst (forkAndExec world0 ''/bin/sh'' [''-l''] (Some ''/home'') g0 os1) = replaced
   \<and> (\<exists>cl. length (close_calls cl) = length cl
        \<and> new_events os1 (snd (forkAndExec world0 ''/bin/sh'' [''-l''] (Some ''/home'') g0 os1)) =
            bootstrap_events world0 ''/bin/sh'' [''-l''] (Some ''/home'') g0 5 cl)"
proof -
  let ?X = "forkAndExec world0 ''/bin/sh'' [''-l''] (Some ''/home'') g0 os1"
  have x: "?X = (fst ?X, snd ?X)" by simp
  have f: "fork_res world0 = 0" "execvp_ok world0 ''/bin/sh''" by (simp_all add: world0_def)
  from bootstrap_steps_in_order [OF f(1) g0_master_open stdio_open_os1
      bootstrap_calls_succeed_world0 f(2) x]
  show ?thesis by (simp add: lowest_unused_os1)
qed

theorem exec_failure_exits_with_status_1_witness:
  "fst (forkAndExec world_no_exec ''/bin/nosuch'' [] (Some ''/home'') g0 os1) = exited 1
   \<and> (\<exists>cl. length (close_calls cl) = length cl
        \<and> new_events os1 (snd (forkAndExec world_no_exec ''/bin/nosuch'' [] (Some ''/home'') g0 os1)) =
            bootstrap_events world_no_exec ''/bin/nosuch'' [] (Some ''/home'') g0 5 cl
            @ [ev_cerr (''Can'' @ [CHR 0x27] @ ''t execute '' @ [CHR 0x27] @ ''/bin/nosuch'' @ [CHR 0x27]
                        @ '': (No such file or directory)'' @ endl),
               ev_exit 1])"
proof -
  let ?X = "forkAndExec world_no_exec ''/bin/nosuch'' [] (Some ''/home'') g0 os1"
  have x: "?X = (fst ?X, snd ?X)" by simp
  have f: "fork_res world_no_exec = 0" "\<not> execvp_ok world_no_exec ''/bin/nosuch''"
    by (simp_all add: world_no_exec_def world0_def)
  have b: "bootstrap_calls_succeed world_no_exec (Some ''/home'') g0 (lowest_unused (open_fds os1))"
    by (simp add: bootstrap_calls_succeed_def chdir_succeeds_def world_no_exec_def world0_def)
  have w: "what world_no_exec (exec_failed world_no_exec ''/bin/nosuch'')
      = ''Can'' @ [CHR 0x27] @ ''t execute '' @ [CHR 0x27] @ ''/bin/nosuch'' @ [CHR 0x27]
                        @ '': (No such file or directory)''"
    by (simp add: what_def exec_failed_def world_no_exec_def world0_def)
  from exec_failure_exits_with_status_1 [OF f(1) g0_master_open stdio_open_os1 b f(2) x]
  show ?thesis unfolding w by (simp add: lowest_unused_os1)
qed

theorem chdir_or_setsid_failure_exits_with_status_1_witness:
  "fst (forkAndExec (world0\<lparr>chdir_ok := (\<lambda>d. False)\<rparr>) ''/bin/sh'' [] (Some ''/nowhere'') g0 os1) = exited 1
   \<and> fst (forkAndExec world_no_setsid ''/bin/sh'' [] None g0 os1) = exited 1
   \<and> new_events os1 (snd (forkAndExec world_no_setsid ''/bin/sh'' [] None g0 os1)) =
       [ev_setsid False,
        ev_cerr (''Error from child: setsid(): (No such file or directory)'' @ endl), ev_exit 1]"
proof -
  let ?w = "world0\<lparr>chdir_ok := (\<lambda>d. False)\<rparr>"
  let ?X = "forkAndExec ?w ''/bin/sh'' [] (Some ''/nowhere'') g0 os1"
  let ?Y = "forkAndExec world_no_setsid ''/bin/sh'' [] None g0 os1"
  have x: "?X = (fst ?X, snd ?X)" by simp
  have y: "?Y = (fst ?Y, snd ?Y)" by simp
  have f: "fork_res ?w = 0" "fork_res world_no_setsid = 0" "\<not> chdir_ok ?w ''/nowhere''"
    "chdir_succeeds world_no_setsid None" "\<not> setsid_ok world_no_setsid"
    "unix_what world_no_setsid ''Error from child: setsid()''
       = ''Error from child: setsid(): (No such file or directory)''"
    by (simp_all add: world_no_setsid_def world0_def chdir_succeeds_def)
  from chdir_or_setsid_failure_exits_with_status_1 [OF f(1) x] f(3)
  have a: "fst ?X = exited 1" by blast
  from chdir_or_setsid_failure_exits_with_status_1 [OF f(2) y] f(4,5)
  have b: "fst ?Y = exited 1 \<and> new_events os1 (snd ?Y) =
                chdir_events None @
                [ev_setsid False,
                 ev_cerr (unix_what world_no_setsid ''Error from child: setsid()'' @ endl),
                 ev_exit 1]" by blast
  from a b show ?thesis by (simp add: chdir_events_def f(6))
qed

section \<open>C10: \<open>openSlaveAndCloseMaster\<close>\<close>

text \<open>
  Claim C10. The generator's master descriptor being open, \<open>openSlaveAndCloseMaster\<close>
  fails if and only if the open of the slave device fails. What \<open>chown\<close> and
  \<open>chmod\<close> answer has no influence on the result. On success the function returns
  the descriptor of the slave, the calls it made are \<open>chown\<close>, \<open>chmod\<close>, the open
  and a successful \<open>close\<close> of the stored master descriptor, the master is no longer
  open afterwards and the returned descriptor is open on the slave device.
\<close>

theorem openSlaveAndCloseMaster_fails_iff_open_fails:
  assumes "masterFd g \<in> set (open_fds s)"
      and "openSlaveAndCloseMaster w g s = (r, s')"
  shows "((\<exists>ex. r = Inl ex) \<longleftrightarrow> open_err w (ptyName g) \<noteq> None)
       \<and> (\<forall>c m. fst (openSlaveAndCloseMaster (w\<lparr>chown_ok := c, chmod_ok := m\<rparr>) g s) = r)
       \<and> (open_err w (ptyName g) = None \<longrightarrow>
             r = Inr (lowest_unused (open_fds s))
             \<and> new_events s s' =
                 [ev_chown (ptyName g) (getuid w) (getgrnam_tty w) (chown_ok w (ptyName g)),
                  ev_chmod (ptyName g) (chmod_ok w (ptyName g)),
                  ev_open (ptyName g) (Inr (lowest_unused (open_fds s))),
                  ev_close (masterFd g) True]
             \<and> masterFd g \<notin> set (open_fds s')
             \<and> lowest_unused (open_fds s) \<in> set (open_fds s')
             \<and> file_of s' (lowest_unused (open_fds s)) = ptyName g)"
proof (cases "open_err w (ptyName g)")
  case (Some e)
  with assms(2) show ?thesis
    by (auto simp: openSlaveAndCloseMaster_def Let_def sys_open_fail)
next
  case None
  have ne: "lowest_unused (open_fds s) \<noteq> masterFd g"
    using assms(1) lowest_unused_fresh [of "open_fds s"] by auto
  have fr: "lowest_unused (open_fds s) \<notin> set (open_fds s)" by (rule lowest_unused_fresh)
  have m: "map_of (fdtable s) (lowest_unused (open_fds s)) = None"
    using fr by (simp add: open_fds_def map_of_eq_None_iff)
  from assms(2) None have r: "r = Inr (lowest_unused (open_fds s))"
    and s': "s' = sys_close (masterFd g)
                   (emit (ev_open (ptyName g) (Inr (lowest_unused (open_fds s))))
                     ((emit (ev_chmod (ptyName g) (chmod_ok w (ptyName g)))
                        (emit (ev_chown (ptyName g) (getuid w) (getgrnam_tty w) (chown_ok w (ptyName g))) s))
                      \<lparr>fdtable := fdtable s @ [(lowest_unused (open_fds s), ptyName g)]\<rparr>))"
    by (auto simp: openSlaveAndCloseMaster_def Let_def sys_open_def)
  have a: "\<forall>c m. fst (openSlaveAndCloseMaster (w\<lparr>chown_ok := c, chmod_ok := m\<rparr>) g s) = r"
    using None r by (simp add: openSlaveAndCloseMaster_def Let_def sys_open_def)
  have b: "new_events s s' =
                 [ev_chown (ptyName g) (getuid w) (getgrnam_tty w) (chown_ok w (ptyName g)),
                  ev_chmod (ptyName g) (chmod_ok w (ptyName g)),
                  ev_open (ptyName g) (Inr (lowest_unused (open_fds s))),
                  ev_close (masterFd g) True]"
    using assms(1) by (simp add: s' new_events_def trace_sys_close emit_def open_fds_def)
  have c: "masterFd g \<notin> set (open_fds s')"
    by (simp add: s' open_fds_sys_close)
  have d: "lowest_unused (open_fds s) \<in> set (open_fds s')"
    using ne by (simp add: s' open_fds_sys_close) (simp add: open_fds_def emit_def)
  have e: "file_of s' (lowest_unused (open_fds s)) = ptyName g"
    using assms(1) ne m
    by (simp add: s' file_of_def sys_close_def emit_def open_fds_def map_of_remove map_add_def)
  from None r a b c d e show ?thesis by simp
qed


theorem openSlaveAndCloseMaster_fails_iff_open_fails_witness:
  "fst (openSlaveAndCloseMaster world0 g0 os1) = Inr 5
   \<and> fst (openSlaveAndCloseMaster (world0\<lparr>chown_ok := (\<lambda>p. False), chmod_ok := (\<lambda>p. False)\<rparr>) g0 os1) = Inr 5
   \<and> 3 \<notin> set (open_fds (snd (openSlaveAndCloseMaster world0 g0 os1)))
   \<and> 5 \<in> set (open_fds (snd (openSlaveAndCloseMaster world0 g0 os1)))
   \<and> (\<exists>ex. fst (openSlaveAndCloseMaster world_no_slave g0 os1) = Inl ex)"
proof -
  let ?X = "openSlaveAndCloseMaster world0 g0 os1"
  let ?Y = "openSlaveAndCloseMaster world_no_slave g0 os1"
  have x: "?X = (fst ?X, snd ?X)" by simp
  have y: "?Y = (fst ?Y, snd ?Y)" by simp
  have ok: "open_err world0 (ptyName g0) = None" by (simp add: world0_def)
  have no: "open_err world_no_slave (ptyName g0) \<noteq> None"
    by (simp add: world_no_slave_def world0_def g0_def)
  have m: "masterFd g0 = 3" by (simp add: g0_def)
  from openSlaveAndCloseMaster_fails_iff_open_fails [OF g0_master_open x] ok
  have a: "fst ?X = Inr (lowest_unused (open_fds os1))
      \<and> (\<forall>c m. fst (openSlaveAndCloseMaster (world0\<lparr>chown_ok := c, chmod_ok := m\<rparr>) g0 os1) = fst ?X)
      \<and> masterFd g0 \<notin> set (open_fds (snd ?X))
      \<and> lowest_unused (open_fds os1) \<in> set (open_fds (snd ?X))"
    by blast
  from openSlaveAndCloseMaster_fails_iff_open_fails [OF g0_master_open y] no
  have b: "\<exists>ex. fst ?Y = Inl ex" by blast
  from a b show ?thesis by (simp add: lowest_unused_os1 m)
qed

section \<open>C3: how a failed open of the slave is reported\<close>

text \<open>
  Claim C3, as the code has it. The claim says the diagnostic of a failed slave open
  is written to the slave descriptor, not to standard error. \<open>openSlaveAndCloseMaster\<close>
  throws a plain \<open>unix_exception\<close>; the handler of \<open>forkAndExec\<close> prints it to
  \<open>std::cerr\<close>. In the instance below nothing is written to a stream opened on a
  descriptor, one line is written to \<open>std::cerr\<close>, and the child exits with status 1.
\<close>

theorem slave_open_failure_not_on_side_channel_counterexample:
  "fst (forkAndExec world_no_slave ''/bin/sh'' [] None g0 os1) = exited 1
   \<and> side_channel_writes (trace (snd (forkAndExec world_no_slave ''/bin/sh'' [] None g0 os1))) = []
   \<and> stderr_writes (trace (snd (forkAndExec world_no_slave ''/bin/sh'' [] None g0 os1)))
       = [''open(/dev/pts/7, O_RDWR | O_NOCTTY) failed: (No such file or directory)'' @ endl]
   \<and> open_fds (snd (forkAndExec world_no_slave ''/bin/sh'' [] None g0 os1)) = [0, 1, 2, 3, 4, 7]"
  by code_simp

text \<open>
  Claim C3, amended. In the child, when the steps before it succeed and the open of
  the slave device fails, the failure is fatal: the calls made are the \<open>chdir\<close> (when
  requested), \<open>setsid\<close>, \<open>chown\<close>, \<open>chmod\<close>, the failed open, the write of the
  diagnostic to \<open>std::cerr\<close> and \<open>exit(1)\<close>, and nothing else. The diagnostic goes
  to standard error; nothing is written to a descriptor of the slave, which was never
  opened.
\<close>

theorem slave_open_failure_goes_to_stderr:
  assumes "fork_res w = 0" and "chdir_succeeds w workingDirectory" and "setsid_ok w"
      and "open_err w (ptyName g) = Some e"
      and "forkAndExec w cmd0 cmd_rest workingDirectory g s = (r, s')"
  shows "r = exited 1
       \<and> new_events s s' = chdir_events workingDirectory @
               [ev_setsid True,
                ev_chown (ptyName g) (getuid w) (getgrnam_tty w) (chown_ok w (ptyName g)),
                ev_chmod (ptyName g) (chmod_ok w (ptyName g)),
                ev_open (ptyName g) (Inl e),
                ev_cerr (what w (slave_open_failed w g) @ endl),
                ev_exit 1]
       \<and> stderr_writes (new_events s s') = [what w (slave_open_failed w g) @ endl]
       \<and> side_channel_writes (new_events s s') = []
       \<and> fdtable s' = fdtable s"
proof -
  have c: "caught_as_std_exception (slave_open_failed w g)"
    by (simp add: caught_as_std_exception_def slave_open_failed_def)
  from assms(5) have r: "r = exited 1"
    and s': "s' = emit (ev_exit 1) (emit (ev_cerr (what w (slave_open_failed w g) @ endl))
                ((case workingDirectory of None \<Rightarrow> s | Some d \<Rightarrow> s\<lparr>cwd := d\<rparr>)
            \<lparr>trace := trace s @ chdir_events workingDirectory @
               [ev_setsid True,
                ev_chown (ptyName g) (getuid w) (getgrnam_tty w) (chown_ok w (ptyName g)),
                ev_chmod (ptyName g) (chmod_ok w (ptyName g)),
                ev_open (ptyName g) (Inl e)]\<rparr>))"
    by (simp_all add: forkAndExec_def assms(1) runChild_slave_open_fails [OF assms(2,3,4)] c)
  have n: "new_events s s' = chdir_events workingDirectory @
               [ev_setsid True,
                ev_chown (ptyName g) (getuid w) (getgrnam_tty w) (chown_ok w (ptyName g)),
                ev_chmod (ptyName g) (chmod_ok w (ptyName g)),
                ev_open (ptyName g) (Inl e),
                ev_cerr (what w (slave_open_failed w g) @ endl),
                ev_exit 1]"
    by (cases workingDirectory) (simp_all add: s' new_events_def emit_def)
  have f: "fdtable s' = fdtable s"
    by (cases workingDirectory) (simp_all add: s' emit_def)
  have ce: "stderr_writes (chdir_events workingDirectory) = []"
    "side_channel_writes (chdir_events workingDirectory) = []"
    by (cases workingDirectory; simp add: chdir_events_def)+
  have sa: "\<And>xs ys. stderr_writes (xs @ ys) = stderr_writes xs @ stderr_writes ys"
    subgoal for xs ys by (induction xs rule: stderr_writes.induct) simp_all
    done
  have sb: "\<And>xs ys. side_channel_writes (xs @ ys) = side_channel_writes xs @ side_channel_writes ys"
    subgoal for xs ys by (induction xs rule: side_channel_writes.induct) simp_all
    done
  from r n f show ?thesis by (simp add: sa sb ce)
qed

theorem slave_open_failure_goes_to_stderr_witness:
  "fst (forkAndExec world_no_slave ''/bin/sh'' [] (Some ''/home'') g0 os1) = exited 1
   \<and> new_events os1 (snd (forkAndExec world_no_slave ''/bin/sh'' [] (Some ''/home'') g0 os1)) =
       [ev_chdir ''/home'' True, ev_setsid True, ev_chown ''/dev/pts/7'' 1000 (Some 5) True,
        ev_chmod ''/dev/pts/7'' True, ev_open ''/dev/pts/7'' (Inl ENOENT),
        ev_cerr (''open(/dev/pts/7, O_RDWR | O_NOCTTY) failed: (No such file or directory)'' @ endl),
        ev_exit 1]"
proof -
  let ?X = "forkAndExec world_no_slave ''/bin/sh'' [] (Some ''/home'') g0 os1"
  have x: "?X = (fst ?X, snd ?X)" by simp
  have a: "fork_res world_no_slave = 0" by (simp add: world_no_slave_def world0_def)
  have b: "chdir_succeeds world_no_slave (Some ''/home'')"
    by (simp add: chdir_succeeds_def world_no_slave_def world0_def)
  have c: "setsid_ok world_no_slave" by (simp add: world_no_slave_def world0_def)
  have d: "open_err world_no_slave (ptyName g0) = Some ENOENT"
    by (simp add: world_no_slave_def world0_def g0_def)
  from slave_open_failure_goes_to_stderr [OF a b c d x]
  show ?thesis
    by (simp add: chdir_events_def what_def slave_open_failed_def world_no_slave_def world0_def g0_def)
qed

section \<open>C9: \<open>fixEnvironment\<close>\<close>

text \<open>
  Claim C9, as the code has it. The claim says that after the step the window-id,
  color-terminal and host-application variables are all unset. Which variables are
  unset depends on \<open>__APPLE__\<close>: without it \<open>TERM_PROGRAM\<close> is left as
  inherited, with it \<open>COLORTERM\<close> is.
\<close>

theorem fixEnvironment_keeps_TERM_PROGRAM_counterexample:
  "\<not> def_APPLE world0
   \<and> environ os0 ''TERM_PROGRAM'' = Some ''Apple_Terminal''
   \<and> environ (fixEnvironment world0 os0) ''TERM_PROGRAM'' = Some ''Apple_Terminal''
   \<and> def_APPLE world_apple
   \<and> environ os0 ''COLORTERM'' = Some ''gnome-terminal''
   \<and> environ (fixEnvironment world_apple os0) ''COLORTERM'' = Some ''gnome-terminal''"
  by (simp add: fixEnvironment_def sys_putenv_def sys_unsetenv_def Let_def world_apple_def world0_def os0_def)

text \<open>
  Claim C9, amended. After \<open>fixEnvironment\<close>, \<open>TERM\<close> is \<open>terminator\<close> and
  \<open>WINDOWID\<close> is unset on every platform. With \<open>__APPLE__\<close>, the variables
  \<open>APP_ICON_<ppid>\<close>, \<open>APP_NAME_<ppid>\<close>, \<open>JAVA_MAIN_CLASS_<ppid>\<close>,
  \<open>TERM_PROGRAM\<close> and \<open>TERM_PROGRAM_VERSION\<close> are unset and \<open>COLORTERM\<close> is
  what it was; without it, \<open>COLORTERM\<close> is unset and those five variables are what
  they were.
\<close>

theorem fixEnvironment_by_platform:
  "environ (fixEnvironment w s) ''TERM'' = Some ''terminator''
   \<and> environ (fixEnvironment w s) ''WINDOWID'' = None
   \<and> (if def_APPLE w
       then environ (fixEnvironment w s) (''APP_ICON_'' @ toString_int w (getppid w)) = None
          \<and> environ (fixEnvironment w s) (''APP_NAME_'' @ toString_int w (getppid w)) = None
          \<and> environ (fixEnvironment w s) (''JAVA_MAIN_CLASS_'' @ toString_int w (getppid w)) = None
          \<and> environ (fixEnvironment w s) ''TERM_PROGRAM'' = None
          \<and> environ (fixEnvironment w s) ''TERM_PROGRAM_VERSION'' = None
          \<and> environ (fixEnvironment w s) ''COLORTERM'' = environ s ''COLORTERM''
       else environ (fixEnvironment w s) ''COLORTERM'' = None
          \<and> environ (fixEnvironment w s) ''TERM_PROGRAM'' = environ s ''TERM_PROGRAM''
          \<and> environ (fixEnvironment w s) ''TERM_PROGRAM_VERSION'' = environ s ''TERM_PROGRAM_VERSION''
          \<and> environ (fixEnvironment w s) (''APP_ICON_'' @ toString_int w (getppid w))
               = environ s (''APP_ICON_'' @ toString_int w (getppid w))
          \<and> environ (fixEnvironment w s) (''APP_NAME_'' @ toString_int w (getppid w))
               = environ s (''APP_NAME_'' @ toString_int w (getppid w))
          \<and> environ (fixEnvironment w s) (''JAVA_MAIN_CLASS_'' @ toString_int w (getppid w))
               = environ s (''JAVA_MAIN_CLASS_'' @ toString_int w (getppid w)))"
  by (simp add: fixEnvironment_def sys_putenv_def sys_unsetenv_def Let_def)

theorem fixEnvironment_by_platform_witness:
  "environ (fixEnvironment world0 os0) ''TERM'' = Some ''terminator''
   \<and> environ (fixEnvironment world0 os0) ''WINDOWID'' = None
   \<and> environ (fixEnvironment world0 os0) ''COLORTERM'' = None
   \<and> environ (fixEnvironment world_apple os0) ''TERM_PROGRAM'' = None
   \<and> environ (fixEnvironment world_apple os0) ''APP_ICON_4242'' = None"
proof -
  have a: "\<not> def_APPLE world0" "def_APPLE world_apple"
    by (simp_all add: world_apple_def world0_def)
  have p: "''APP_ICON_'' @ toString_int world_apple (getppid world_apple) = ''APP_ICON_4242''"
    by code_simp
  from fixEnvironment_by_platform [of world0 os0] fixEnvironment_by_platform [of world_apple os0] a p
  show ?thesis by simp
qed

section \<open>C8: \<open>closeUnusedFiles\<close>\<close>

text \<open>
  Claim C8. \<open>closeUnusedFiles\<close> calls \<open>close\<close> on the numbers above 2 that the
  entries of the descriptor directory parse to, in the order of the enumeration, after
  the whole enumeration has been read, and makes no other call: an entry that parses
  to 2 or less is passed over. Descriptors 0, 1 and 2 are never closed and keep what
  they were open on. When the enumeration lists every open descriptor above 2, the
  descriptors open afterwards are exactly those at most 2 that were open before.
\<close>

theorem closeUnusedFiles_closes_above_2:
  "close_calls (new_events s (closeUnusedFiles w s))
     = filter (\<lambda>fd. 2 < fd) (map parse_fd (dir_listing w (fdDirectory w) (fdtable s)))
   \<and> length (new_events s (closeUnusedFiles w s))
       = length (close_calls (new_events s (closeUnusedFiles w s)))
   \<and> 0 \<notin> set (close_calls (new_events s (closeUnusedFiles w s)))
   \<and> 1 \<notin> set (close_calls (new_events s (closeUnusedFiles w s)))
   \<and> 2 \<notin> set (close_calls (new_events s (closeUnusedFiles w s)))
   \<and> filter (\<lambda>p. fst p \<le> 2) (fdtable (closeUnusedFiles w s)) = filter (\<lambda>p. fst p \<le> 2) (fdtable s)
   \<and> ((\<forall>fd \<in> set (open_fds s). 2 < fd \<longrightarrow>
          fd \<in> set (map parse_fd (dir_listing w (fdDirectory w) (fdtable s))))
        \<longrightarrow> fdtable (closeUnusedFiles w s) = filter (\<lambda>p. fst p \<le> 2) (fdtable s))"
proof -
  let ?names = "dir_listing w (fdDirectory w) (fdtable s)"
  let ?L = "filter (\<lambda>fd. 2 < fd) (map parse_fd ?names)"
  have c: "closeUnusedFiles w s = close_fds ?L s"
    by (simp add: closeUnusedFiles_def collect_fds_filter)
  obtain es where es: "trace (close_fds ?L s) = trace s @ es" "close_calls es = ?L"
    "length es = length ?L"
    using close_fds_trace [of ?L s] by blast
  have n: "new_events s (closeUnusedFiles w s) = es"
    by (simp add: c es(1) new_events_def)
  have t: "fdtable (closeUnusedFiles w s) = filter (\<lambda>p. fst p \<notin> set ?L) (fdtable s)"
    by (simp add: c close_fds_fdtable)
  have low: "filter (\<lambda>p. fst p \<le> 2) (fdtable (closeUnusedFiles w s)) = filter (\<lambda>p. fst p \<le> 2) (fdtable s)"
    unfolding t by (auto intro: filter_cong)
  have ex: "(\<forall>fd \<in> set (open_fds s). 2 < fd \<longrightarrow> fd \<in> set (map parse_fd ?names))
        \<longrightarrow> fdtable (closeUnusedFiles w s) = filter (\<lambda>p. fst p \<le> 2) (fdtable s)"
  proof
    assume a: "\<forall>fd \<in> set (open_fds s). 2 < fd \<longrightarrow> fd \<in> set (map parse_fd ?names)"
    show "fdtable (closeUnusedFiles w s) = filter (\<lambda>p. fst p \<le> 2) (fdtable s)"
      unfolding t
    proof (rule filter_cong [OF refl])
      fix p assume "p \<in> set (fdtable s)"
      then have "fst p \<in> set (open_fds s)" by (simp add: open_fds_def)
      with a have "2 < fst p \<longrightarrow> fst p \<in> set (map parse_fd ?names)" by blast
      then show "(fst p \<notin> set ?L) = (fst p \<le> 2)" by auto
    qed
  qed
  from n es low ex show ?thesis by auto
qed



theorem closeUnusedFiles_closes_above_2_witness:
  "close_calls (new_events os1 (closeUnusedFiles world0 os1)) = [3, 4, 7, 5]
   \<and> fdtable (closeUnusedFiles world0 os1) = fdtable os0"
proof -
  have l: "map parse_fd (dir_listing world0 (fdDirectory world0) (fdtable os1)) = [0, 0, 0, 1, 2, 3, 4, 7, 5]"
    unfolding dir_listing_os1 by (simp add: parse_fd_examples)
  have o: "open_fds os1 = [0, 1, 2, 3, 4, 7]" by code_simp
  have h: "\<forall>fd \<in> set (open_fds os1). 2 < fd \<longrightarrow>
             fd \<in> set (map parse_fd (dir_listing world0 (fdDirectory world0) (fdtable os1)))"
    unfolding l o by simp
  have f: "filter (\<lambda>p. fst p \<le> 2) (fdtable os1) = fdtable os0"
    by code_simp
  from closeUnusedFiles_closes_above_2 [of os1 world0] h l f show ?thesis by simp
qed

section \<open>C7: the exit status after a failed bootstrap step\<close>

text \<open>
  Claim C7, at an input where the code does not do what it says. The child's
  \<open>ioctl(childFd, TIOCSCTTY, 0)\<close> fails; \<open>runChild\<close> throws a
  \<open>child_exception_via_pipe\<close>. The handler \<open>catch (const std::exception&)\<close> of
  \<open>forkAndExec\<close> does not match an object of that class, whose base is private, so
  neither the write to \<open>std::cerr\<close> nor \<open>exit(1)\<close> is reached: the exception
  leaves \<open>forkAndExec\<close> in the child process.
\<close>

theorem forkAndExec_ioctl_failure_escapes:
  "fst (forkAndExec world_ioctl_fails ''/bin/sh'' [] None g0 os1)
     = propagated (Thrown child_exception_via_pipe ''Error from child: ioctl(5, TIOCSCTTY, 0)'')
   \<and> fst (forkAndExec world_ioctl_fails ''/bin/sh'' [] None g0 os1) \<noteq> exited 1
   \<and> exit_calls (trace (snd (forkAndExec world_ioctl_fails ''/bin/sh'' [] None g0 os1))) = []
   \<and> stderr_writes (trace (snd (forkAndExec world_ioctl_fails ''/bin/sh'' [] None g0 os1))) = []"
  by (simp add: child_defs world_ioctl_fails_def world0_def g0_def os1_def os0_def decimal_5)

section \<open>C4: a failed step and the caller's control flow\<close>

text \<open>
  Claim C4, at an input where the code does not do what it says. The second
  \<open>dup2\<close> of the child fails. No later step runs, but the
  \<open>child_exception_via_pipe\<close> thrown is not caught by \<open>forkAndExec\<close> and
  propagates to its caller: the child goes back into the caller's control flow.
\<close>

theorem forkAndExec_dup2_failure_escapes:
  "fst (forkAndExec world_dup2_fails ''/bin/sh'' [] None g0 os1)
     = propagated (Thrown child_exception_via_pipe ''Error from child: dup2(5, STDOUT_FILENO)'')
   \<and> trace (snd (forkAndExec world_dup2_fails ''/bin/sh'' [] None g0 os1)) =
       [ev_setsid True, ev_chown ''/dev/pts/7'' 1000 (Some 5) True, ev_chmod ''/dev/pts/7'' True,
        ev_open ''/dev/pts/7'' (Inr 5), ev_close 3 True, ev_ioctl_TIOCSCTTY 5 True,
        ev_dup2 5 0 True, ev_dup2 5 1 False,
        ev_fprintf 5 (''Error from child: dup2(5, STDOUT_FILENO): (No such file or directory)'' @ endl)]"
  by (simp add: child_defs world_dup2_fails_def world0_def g0_def os1_def os0_def decimal_5)

end
